theory Spec2Isabelle
  imports Complex_Main "HOL-Library.Word" "HOL-Library.Sublist"
begin

section \<open>oclgrep: the command-line driver (src/main.cpp)\<close>

text \<open>
  The repository's source under verification is \<^verbatim>\<open>src/main.cpp\<close>: \<^verbatim>\<open>readfile\<close>,
  \<^verbatim>\<open>print_graph\<close> and \<^verbatim>\<open>main\<close>. The regex compiler (\<^verbatim>\<open>string_to_graph\<close>), the
  OpenCL engine and runner (\<^verbatim>\<open>oclengine\<close>, \<^verbatim>\<open>oclrunner\<close>), the serial graph type and the
  Boost libraries are collaborators whose code is not part of the file; they enter the
  model as the fields of a record \<open>world\<close>, and every theorem holds for all of them.
\<close>

subsection \<open>Data\<close>

text \<open>
  \<^verbatim>\<open>char32_t\<close>, \<^verbatim>\<open>std::uint32_t\<close>: 32-bit words. \<^verbatim>\<open>std::u32string\<close>: a list of
  code points. \<^verbatim>\<open>std::size_t\<close>: a natural number below \<open>2 ^ 64\<close>, every sum reduced
  modulo \<open>2 ^ 64\<close> where the source adds.
\<close>

type_synonym char32 = "32 word"
type_synonym u32string = "char32 list"

definition size_t_add :: "nat \<Rightarrow> nat \<Rightarrow> nat" where
  "size_t_add a b = (a + b) mod 2 ^ 64"

text \<open>
  What \<^verbatim>\<open>main\<close> can catch: \<^verbatim>\<open>user_error\<close> (first handler), any other
  \<^verbatim>\<open>std::exception\<close> (second handler), each with its \<^verbatim>\<open>what()\<close>. Undefined behaviour
  (a read outside a vector, an iterator range that runs backwards) is a third value, so
  that it is never mistaken for a result.
\<close>

datatype error = user_error string | std_exception string | undefined_behaviour

text \<open>
  An output stream is the sequence of the operands inserted with \<^verbatim>\<open><<\<close>: a string, an
  unsigned number (printed in decimal by the stream), \<^verbatim>\<open>std::endl\<close>, or the
  \<^verbatim>\<open>options_description\<close> object of the help text.
\<close>

datatype item = Str string | Num nat | Endl | Options_Description

text \<open>
  The calls \<^verbatim>\<open>main\<close> makes to its collaborators, in the order it makes them:
  \<^verbatim>\<open>po::store\<close> of the parsed command line, the \<^verbatim>\<open>oclengine\<close> constructor,
  \<^verbatim>\<open>string_to_graph\<close> with its argument, the \<^verbatim>\<open>oclrunner\<close> constructor with the
  chunk size it is given, \<^verbatim>\<open>readfile\<close> with the file name, and \<^verbatim>\<open>runner.run\<close> with the
  chunk passed and what the call gave back (the exception or the result vector).
  The streams hold what \<^verbatim>\<open>main.cpp\<close> itself inserts; what a collaborator prints on its
  own (the runner's profiling data) is not part of them.
\<close>

datatype event =
    Parse_Command_Line
  | Engine_Init
  | Compile u32string
  | Runner_Init "32 word"
  | Read_File string
  | Run u32string "error + 32 word list"

record process =
  cout :: "item list"
  cerr :: "item list"
  calls :: "event list"

definition log_call :: "event \<Rightarrow> process \<Rightarrow> process" where
  "log_call ev p = p\<lparr>calls := calls p @ [ev]\<rparr>"

definition write_cout :: "item list \<Rightarrow> process \<Rightarrow> process" where
  "write_cout xs p = p\<lparr>cout := cout p @ xs\<rparr>"

definition write_cerr :: "item list \<Rightarrow> process \<Rightarrow> process" where
  "write_cerr xs p = p\<lparr>cerr := cerr p @ xs\<rparr>"

text \<open>
  Modelled from the spec: the declaration of \<^verbatim>\<open>serial::graph\<close>, \<^verbatim>\<open>serial::word\<close>,
  \<^verbatim>\<open>serial::id\<close> and \<^verbatim>\<open>serial::character\<close> (in \<^verbatim>\<open>common.hpp\<close>, which is not among the
  sources). The record has the fields \<^verbatim>\<open>print_graph\<close> uses, \<^verbatim>\<open>n\<close>, \<^verbatim>\<open>o\<close> and
  \<^verbatim>\<open>data\<close>, here \<open>graph_n\<close>, \<open>graph_o\<close> and \<open>graph_data\<close> (\<open>o\<close> is HOL's function
  composition). The storage is the specification's flat sequence of fixed-width words, a
  symbol being a full code point: words, ids and characters are 32-bit words, so that
  each \<^verbatim>\<open>reinterpret_cast\<close> of \<^verbatim>\<open>print_graph\<close> reads the word itself; \<^verbatim>\<open>n\<close> and \<^verbatim>\<open>o\<close>
  are natural numbers.
\<close>

record graph =
  graph_n :: nat
  graph_o :: nat
  graph_data :: "32 word list"

text \<open>
  The \<^verbatim>\<open>po::variables_map\<close> after \<^verbatim>\<open>po::store\<close>: which options the command line
  gave, and the values of those that take one.
\<close>

record cmdline =
  opt_regex :: "string option"
  opt_file :: "string option"
  opt_normalize_regex :: bool
  opt_normalize_file :: bool
  opt_print_graph :: bool
  opt_print_profile :: bool
  opt_no_output :: bool
  opt_max_chunk_size :: "32 word option"
  opt_help :: bool

text \<open>
  The collaborators, none of them among the sources:
  \<^item> \<open>utf8_locale\<close>: what \<^verbatim>\<open>std::use_facet<boost::locale::info>(loc).utf8()\<close> returns;
  \<^item> \<open>command_line_parser\<close>: \<^verbatim>\<open>po::store\<close> of the parsed \<^verbatim>\<open>argv\<close>, \<open>Inl\<close> of
    \<^verbatim>\<open>e.what()\<close> when it throws;
  \<^item> \<open>notify_error\<close>: \<^verbatim>\<open>e.what()\<close> of the exception \<^verbatim>\<open>po::notify\<close> throws (a
    required option is missing), if any;
  \<^item> \<open>oclengine\<close>, \<open>oclrunner\<close>: the constructors; \<open>'eng\<close> is the state of an engine,
    \<open>'run\<close> that of a runner;
  \<^item> \<open>run\<close>: \<^verbatim>\<open>oclrunner::run\<close>; it is not const, so it returns the runner's next
    state with its result (a vector of 32-bit offsets);
  \<^item> \<open>utf_to_utf32\<close>: \<^verbatim>\<open>boost::locale::conv::utf_to_utf<char32_t>\<close>, which skips
    invalid input and does not throw;
  \<^item> \<open>normalize_nfkc\<close>: the round trip through \<^verbatim>\<open>wchar_t\<close> and
    \<^verbatim>\<open>boost::locale::normalize(..., norm_nfkc)\<close>;
  \<^item> \<open>string_to_graph\<close>: the regex compiler;
  \<^item> \<open>files\<close>: what an \<^verbatim>\<open>std::ifstream\<close> does with a path: \<open>None\<close> when the
    stream is not \<^verbatim>\<open>good()\<close> after the open (no such file); \<open>Some (Inl e)\<close> when the path
    opens but reading it throws \<open>e\<close> (a directory: the stream buffer throws
    \<^verbatim>\<open>std::ios_base::failure\<close>); \<open>Some (Inr content)\<close> when it opens and holds the
    bytes \<open>content\<close>;
  \<^item> \<open>id_begin\<close>, \<open>id_fail\<close>, \<open>id_ok\<close>: the constants \<^verbatim>\<open>serial::id_begin\<close>,
    \<^verbatim>\<open>serial::id_fail\<close>, \<^verbatim>\<open>serial::id_ok\<close>; \<open>sizeof_word\<close>:
    \<^verbatim>\<open>sizeof(serial::word)\<close>; \<open>graph_size\<close>: \<^verbatim>\<open>serial::graph::size()\<close>.
  A constructor or a call that throws returns \<open>Inl\<close> of the exception.
\<close>

record ('eng, 'run) world =
  utf8_locale :: bool
  command_line_parser :: "string list \<Rightarrow> string + cmdline"
  notify_error :: "cmdline \<Rightarrow> string option"
  oclengine :: "error + 'eng"
  utf_to_utf32 :: "string \<Rightarrow> u32string"
  normalize_nfkc :: "u32string \<Rightarrow> error + u32string"
  string_to_graph :: "u32string \<Rightarrow> error + graph"
  oclrunner :: "'eng \<Rightarrow> 32 word \<Rightarrow> graph \<Rightarrow> bool \<Rightarrow> error + 'run"
  run :: "'run \<Rightarrow> u32string \<Rightarrow> error + (32 word list \<times> 'run)"
  files :: "string \<Rightarrow> (error + string) option"
  id_begin :: nat
  id_fail :: nat
  id_ok :: nat
  sizeof_word :: nat
  graph_size :: "graph \<Rightarrow> nat"

subsection \<open>\<^verbatim>\<open>readfile\<close> (lines 18 to 27)\<close>

text \<open>
  The function tests the stream once, after the open (line 20). The bytes are then read
  through \<^verbatim>\<open>std::istreambuf_iterator\<close> (lines 24 and 25), straight from the stream
  buffer: an exception of the buffer is not caught by the stream and leaves
  \<^verbatim>\<open>readfile\<close>.
\<close>

definition readfile :: "('eng, 'run) world \<Rightarrow> string \<Rightarrow> error + string" where
  "readfile W fname =
     (case files W fname of
        None \<Rightarrow> Inl (user_error ''file does not exist!'')
      | Some (Inl e) \<Rightarrow> Inl e
      | Some (Inr content) \<Rightarrow> Inr content)"

subsection \<open>\<^verbatim>\<open>print_graph\<close> (lines 29 to 65)\<close>

text \<open>
  \<^verbatim>\<open>g.data[i]\<close>: \<^verbatim>\<open>operator[]\<close> of a vector does not check its index; a read outside the
  vector is undefined behaviour.
\<close>

definition data_at :: "graph \<Rightarrow> nat \<Rightarrow> error + 32 word" where
  "data_at g i =
     (if i < length (graph_data g) then Inr (graph_data g ! i) else Inl undefined_behaviour)"

text \<open>
  The three nested loops, innermost first; each function is its loop from the counter
  it is given on, and returns what the loop inserts into \<^verbatim>\<open>std::cout\<close>. The indices are
  natural numbers: an index inside the vector is below \<open>2 ^ 64\<close>, so \<^verbatim>\<open>std::size_t\<close>
  does not wrap on it.
\<close>

function print_entries :: "graph \<Rightarrow> nat \<Rightarrow> nat \<Rightarrow> error + item list" where
  "print_entries g base_slot i_entry =
     (if i_entry < graph_o g then
        (let base_entry = base_slot + i_entry in
         case data_at g base_entry of
           Inl e \<Rightarrow> Inl e
         | Inr ident \<Rightarrow>
             (case print_entries g base_slot (i_entry + 1) of
                Inl e \<Rightarrow> Inl e
              | Inr rest \<Rightarrow>
                  Inr ((if 0 < i_entry then [Str '',''] else []) @ [Num (unat ident)] @ rest)))
      else Inr [])"
  by pat_completeness auto
termination
  by (relation "measure (\<lambda>(g, base_slot, i_entry). graph_o g - i_entry)") auto

declare print_entries.simps [simp del]

function print_value_slots :: "graph \<Rightarrow> nat \<Rightarrow> nat \<Rightarrow> nat \<Rightarrow> error + item list" where
  "print_value_slots g base_node_body m i_value_slot =
     (if i_value_slot < m then
        (let base_value_slot = base_node_body + i_value_slot * (1 + graph_o g) in
         case data_at g base_value_slot of
           Inl e \<Rightarrow> Inl e
         | Inr c \<Rightarrow>
             (let base_slot = base_value_slot + 1 in
              case print_entries g base_slot 0 of
                Inl e \<Rightarrow> Inl e
              | Inr entries \<Rightarrow>
                  (case print_value_slots g base_node_body m (i_value_slot + 1) of
                     Inl e \<Rightarrow> Inl e
                   | Inr rest \<Rightarrow>
                       Inr ([Str ''    '', Num (unat c), Str '' => [''] @ entries
                            @ [Str '']'', Endl] @ rest))))
      else Inr [])"
  by pat_completeness auto
termination
  by (relation "measure (\<lambda>(g, base_node_body, m, i_value_slot). m - i_value_slot)") auto

declare print_value_slots.simps [simp del]

function print_nodes :: "('eng, 'run) world \<Rightarrow> graph \<Rightarrow> nat \<Rightarrow> error + item list" where
  "print_nodes W g i_node =
     (if i_node < graph_n g then
        (case data_at g i_node of
           Inl e \<Rightarrow> Inl e
         | Inr w0 \<Rightarrow>
             (let base_node = unat w0 in
              case data_at g base_node of
                Inl e \<Rightarrow> Inl e
              | Inr w1 \<Rightarrow>
                  (let m = unat w1;
                       base_node_body = base_node + 1 in
                   case print_value_slots g base_node_body m 0 of
                     Inl e \<Rightarrow> Inl e
                   | Inr slots \<Rightarrow>
                       (case print_nodes W g (i_node + 1) of
                          Inl e \<Rightarrow> Inl e
                        | Inr rest \<Rightarrow>
                            Inr ([Str ''  node'', Num i_node, Str '' (m='', Num m]
                                 @ (if i_node = id_begin W then [Str '', BEGIN'']
                                    else if i_node = id_fail W then [Str '', FAIL'']
                                    else if i_node = id_ok W then [Str '', OK'']
                                    else [])
                                 @ [Str ''):'', Endl] @ slots @ rest)))))
      else Inr [])"
  by pat_completeness auto
termination
  by (relation "measure (\<lambda>(W, g, i_node). graph_n g - i_node)") auto

declare print_nodes.simps [simp del]

definition print_graph :: "('eng, 'run) world \<Rightarrow> graph \<Rightarrow> error + item list" where
  "print_graph W g =
     (case print_nodes W g 0 of
        Inl e \<Rightarrow> Inl e
      | Inr nodes \<Rightarrow>
          Inr ([Str ''Graph (n='', Num (graph_n g), Str '', o='', Num (graph_o g),
                Str '', size='', Num (sizeof_word W * graph_size W g), Str ''byte):'', Endl]
               @ nodes))"

subsection \<open>The chunking loop of \<^verbatim>\<open>main\<close> (lines 162 to 175)\<close>

text \<open>
  \<^verbatim>\<open>for (const auto& idx : result) std::cout << (offset + idx) << std::endl;\<close>
\<close>

definition print_result :: "nat \<Rightarrow> 32 word list \<Rightarrow> item list" where
  "print_result offset result =
     concat (map (\<lambda>idx. [Num (size_t_add offset (unat idx)), Endl]) result)"

text \<open>
  One call of the function is one test of the loop condition. The chunk is the range
  \<^verbatim>\<open>[begin + offset, begin + end)\<close>; were \<^verbatim>\<open>end\<close> below \<^verbatim>\<open>offset\<close> (the sum
  \<^verbatim>\<open>offset + max_chunk_size\<close> wrapped), the range would run backwards. An exception of
  \<^verbatim>\<open>run\<close> leaves the loop. The function returns \<open>None\<close> when the loop runs forever.
\<close>

partial_function (option) chunk_loop ::
  "('eng, 'run) world \<Rightarrow> bool \<Rightarrow> 32 word \<Rightarrow> u32string \<Rightarrow> 'run \<Rightarrow> nat \<Rightarrow> process
     \<Rightarrow> ((error + unit) \<times> process) option"
where
  "chunk_loop W no_output max_chunk_size fcontent_utf32 runner offset p =
     (if offset < length fcontent_utf32 then
        (let end = min (size_t_add offset (unat max_chunk_size)) (length fcontent_utf32) in
         if end < offset then Some (Inl undefined_behaviour, p)
         else
           (let chunk = take (end - offset) (drop offset fcontent_utf32) in
            case run W runner chunk of
              Inl e \<Rightarrow> Some (Inl e, log_call (Run chunk (Inl e)) p)
            | Inr (result, runner') \<Rightarrow>
                chunk_loop W no_output max_chunk_size fcontent_utf32 runner'
                  (size_t_add offset (unat max_chunk_size))
                  (write_cout (if no_output then [] else print_result offset result)
                     (log_call (Run chunk (Inr result)) p))))
      else Some (Inr (), p))"

declare chunk_loop.simps [code]

subsection \<open>\<^verbatim>\<open>main\<close> (lines 67 to 190)\<close>

definition EXIT_SUCCESS :: int where
  "EXIT_SUCCESS = 0"

definition EXIT_FAILURE :: int where
  "EXIT_FAILURE = 1"

text \<open>
  The variables \<^verbatim>\<open>po::notify\<close> stores into: the two strings are default-constructed
  (empty) and written when their option is present; \<^verbatim>\<open>max_chunk_size\<close> has the default
  value of line 90. The variable \<^verbatim>\<open>file\<close> is \<open>file_name\<close> here (\<open>file\<close> is a keyword).
\<close>

definition regex_utf8 :: "cmdline \<Rightarrow> string" where
  "regex_utf8 vm = (case opt_regex vm of None \<Rightarrow> [] | Some s \<Rightarrow> s)"

definition file_name :: "cmdline \<Rightarrow> string" where
  "file_name vm = (case opt_file vm of None \<Rightarrow> [] | Some s \<Rightarrow> s)"

definition max_chunk_size :: "cmdline \<Rightarrow> 32 word" where
  "max_chunk_size vm = (case opt_max_chunk_size vm of None \<Rightarrow> 16 * 1024 * 1024 | Some w \<Rightarrow> w)"

text \<open>
  The body of the \<^verbatim>\<open>try\<close> block, in three parts, last part first. Each returns the
  exception thrown (\<open>Inl\<close>) or the value returned (\<open>Inr\<close>) with the process as it is
  then, or \<open>None\<close> when the chunking loop never ends.

  Lines 143 to 175: load the file, convert it, run the loop.
\<close>

definition load_and_search ::
  "('eng, 'run) world \<Rightarrow> cmdline \<Rightarrow> 'run \<Rightarrow> process \<Rightarrow> ((error + int) \<times> process) option"
where
  "load_and_search W vm runner p =
     (let p1 = log_call (Read_File (file_name vm)) p in
      case readfile W (file_name vm) of
        Inl e \<Rightarrow> Some (Inl e, p1)
      | Inr fcontent_utf8 \<Rightarrow>
          if fcontent_utf8 = [] then
            Some (Inl (user_error ''Empty files cannot be processed!''), p1)
          else
            (case (if opt_normalize_file vm
                   then normalize_nfkc W (utf_to_utf32 W fcontent_utf8)
                   else Inr (utf_to_utf32 W fcontent_utf8)) of
               Inl e \<Rightarrow> Some (Inl e, p1)
             | Inr fcontent_utf32 \<Rightarrow>
                 (case chunk_loop W (opt_no_output vm) (max_chunk_size vm) fcontent_utf32
                         runner 0 p1 of
                    None \<Rightarrow> None
                  | Some (Inl e, p2) \<Rightarrow> Some (Inl e, p2)
                  | Some (Inr u, p2) \<Rightarrow> Some (Inr EXIT_SUCCESS, p2))))"

text \<open>
  Lines 120 to 141: construct the engine, convert the regex, compile it, print the
  graph if asked, construct the runner.
\<close>

definition compile_and_search ::
  "('eng, 'run) world \<Rightarrow> cmdline \<Rightarrow> process \<Rightarrow> ((error + int) \<times> process) option"
where
  "compile_and_search W vm p =
     (let p1 = log_call Engine_Init p in
      case oclengine W of
        Inl e \<Rightarrow> Some (Inl e, p1)
      | Inr eng \<Rightarrow>
          (case (if opt_normalize_regex vm
                 then normalize_nfkc W (utf_to_utf32 W (regex_utf8 vm))
                 else Inr (utf_to_utf32 W (regex_utf8 vm))) of
             Inl e \<Rightarrow> Some (Inl e, p1)
           | Inr regex_utf32 \<Rightarrow>
               (let p2 = log_call (Compile regex_utf32) p1 in
                case string_to_graph W regex_utf32 of
                  Inl e \<Rightarrow> Some (Inl e, p2)
                | Inr g \<Rightarrow>
                    (case (if opt_print_graph vm then print_graph W g else Inr []) of
                       Inl e \<Rightarrow> Some (Inl e, p2)
                     | Inr dump \<Rightarrow>
                         (let p3 = log_call (Runner_Init (max_chunk_size vm)) (write_cout dump p2) in
                          case oclrunner W eng (max_chunk_size vm) g (opt_print_profile vm) of
                            Inl e \<Rightarrow> Some (Inl e, p3)
                          | Inr runner \<Rightarrow> load_and_search W vm runner p3)))))"

text \<open>Lines 69 to 118: the locale check, the command line, \<^verbatim>\<open>--help\<close>.\<close>

definition main_try ::
  "('eng, 'run) world \<Rightarrow> string list \<Rightarrow> process \<Rightarrow> ((error + int) \<times> process) option"
where
  "main_try W argv p =
     (if \<not> utf8_locale W then
        Some (Inl (user_error ''sorry, this program only works on UTF8 systems''), p)
      else
        (let p1 = log_call Parse_Command_Line p in
         case command_line_parser W argv of
           Inl what \<Rightarrow> Some (Inl (user_error what), p1)
         | Inr vm \<Rightarrow>
             if opt_help vm then
               Some (Inr 1,
                 write_cout [Str ''oclgrep REGEX FILE'', Endl, Options_Description, Endl] p1)
             else
               (case notify_error W vm of
                  Some what \<Rightarrow> Some (Inl (user_error what), p1)
                | None \<Rightarrow> compile_and_search W vm p1)))"

text \<open>
  The handlers (lines 176 to 187) and the final \<^verbatim>\<open>return\<close>. A process ends with the
  value \<^verbatim>\<open>main\<close> returns, or in undefined behaviour.
\<close>

datatype status = Returned int | Undefined

definition internal_error_banner :: "string \<Rightarrow> item list" where
  "internal_error_banner what =
     [Str ''========================================================================='', Endl,
      Str ''there was an internal error, please report this as a bug'', Endl,
      Str ''================================= ERROR ================================='', Endl,
      Str what, Endl,
      Str ''========================================================================='', Endl]"

definition main :: "('eng, 'run) world \<Rightarrow> string list \<Rightarrow> (status \<times> process) option" where
  "main W argv =
     (case main_try W argv \<lparr>cout = [], cerr = [], calls = []\<rparr> of
        None \<Rightarrow> None
      | Some (Inr code, p) \<Rightarrow> Some (Returned code, p)
      | Some (Inl (user_error what), p) \<Rightarrow>
          Some (Returned EXIT_FAILURE, write_cerr [Str what, Endl] p)
      | Some (Inl (std_exception what), p) \<Rightarrow>
          Some (Returned EXIT_FAILURE, write_cerr (internal_error_banner what) p)
      | Some (Inl undefined_behaviour, p) \<Rightarrow> Some (Undefined, p))"

section \<open>Observations, and the format in the specification's words\<close>

subsection \<open>Windows, run calls and printed positions\<close>

text \<open>
  Window \<open>k\<close> of a text cut into consecutive windows of \<open>w\<close> elements: the \<open>w\<close> elements
  from position \<open>k * w\<close> on (fewer at the end of the text).
\<close>

definition window :: "nat \<Rightarrow> 'a list \<Rightarrow> nat \<Rightarrow> 'a list" where
  "window w t k = take w (drop (k * w) t)"

text \<open>What one \<^verbatim>\<open>run\<close> call contributes to the output: nothing when it threw.\<close>

definition printed :: "nat \<Rightarrow> error + 32 word list \<Rightarrow> item list" where
  "printed offset res = (case res of Inl e \<Rightarrow> [] | Inr result \<Rightarrow> print_result offset result)"

text \<open>The chunks of the \<^verbatim>\<open>run\<close> calls among a sequence of calls, in order.\<close>

fun run_chunks :: "event list \<Rightarrow> u32string list" where
  "run_chunks [] = []"
| "run_chunks (Run chunk res # evs) = chunk # run_chunks evs"
| "run_chunks (ev # evs) = run_chunks evs"

text \<open>
  What successive \<^verbatim>\<open>run\<close> calls give on a sequence of chunks: the first call is made
  on the runner \<open>r\<close>, every later call on the runner as the call before it left it, and
  no call is made after one that threw.
\<close>

fun run_results ::
  "('eng, 'run) world \<Rightarrow> 'run \<Rightarrow> u32string list \<Rightarrow> (error + 32 word list) list"
where
  "run_results W r [] = []"
| "run_results W r (c # cs) =
     (case run W r c of
        Inl e \<Rightarrow> [Inl e]
      | Inr (result, r') \<Rightarrow> Inr result # run_results W r' cs)"

text \<open>The numbers among the items of a stream, in order.\<close>

fun numbers :: "item list \<Rightarrow> nat list" where
  "numbers [] = []"
| "numbers (Num x # xs) = x # numbers xs"
| "numbers (x # xs) = numbers xs"

subsection \<open>The automaton format\<close>

text \<open>
  The accessors of the format as the specification gives them:
  \<^verbatim>\<open>base = storage[state_index]\<close>, \<^verbatim>\<open>m = storage[base]\<close>, slot \<open>k\<close>'s symbol at
  \<^verbatim>\<open>storage[base + 1 + k*(1+o)]\<close>, slot \<open>k\<close>'s target \<open>j\<close> at
  \<^verbatim>\<open>storage[base + 1 + k*(1+o) + 1 + j]\<close>.
\<close>

definition spec_base :: "graph \<Rightarrow> nat \<Rightarrow> nat" where
  "spec_base g i = unat (graph_data g ! i)"

definition spec_m :: "graph \<Rightarrow> nat \<Rightarrow> nat" where
  "spec_m g i = unat (graph_data g ! spec_base g i)"

definition spec_symbol :: "graph \<Rightarrow> nat \<Rightarrow> nat \<Rightarrow> 32 word" where
  "spec_symbol g i k = graph_data g ! (spec_base g i + 1 + k * (1 + graph_o g))"

definition spec_target :: "graph \<Rightarrow> nat \<Rightarrow> nat \<Rightarrow> nat \<Rightarrow> 32 word" where
  "spec_target g i k j = graph_data g ! (spec_base g i + 1 + k * (1 + graph_o g) + 1 + j)"

text \<open>
  Every word the accessors name, for every state below \<open>n\<close>, lies inside the storage.
\<close>

definition records_in_storage :: "graph \<Rightarrow> bool" where
  "records_in_storage g =
     list_all (\<lambda>i.
        i < length (graph_data g) \<and>
        spec_base g i < length (graph_data g) \<and>
        list_all (\<lambda>k.
           spec_base g i + 1 + k * (1 + graph_o g) < length (graph_data g) \<and>
           list_all (\<lambda>j. spec_base g i + 1 + k * (1 + graph_o g) + 1 + j < length (graph_data g))
             [0..<graph_o g])
          [0..<spec_m g i])
       [0..<graph_n g]"

text \<open>
  The dump, written from the accessors alone: the header, then for every state its
  index, \<open>m\<close> and its mark, then for every slot its symbol and its \<open>o\<close> targets.
\<close>

definition dump_targets :: "graph \<Rightarrow> nat \<Rightarrow> nat \<Rightarrow> item list" where
  "dump_targets g i k =
     concat (map (\<lambda>j. (if 0 < j then [Str '',''] else []) @ [Num (unat (spec_target g i k j))])
               [0..<graph_o g])"

definition dump_slot :: "graph \<Rightarrow> nat \<Rightarrow> nat \<Rightarrow> item list" where
  "dump_slot g i k =
     [Str ''    '', Num (unat (spec_symbol g i k)), Str '' => [''] @ dump_targets g i k
     @ [Str '']'', Endl]"

definition state_mark :: "('eng, 'run) world \<Rightarrow> nat \<Rightarrow> item list" where
  "state_mark W i =
     (if i = id_begin W then [Str '', BEGIN'']
      else if i = id_fail W then [Str '', FAIL'']
      else if i = id_ok W then [Str '', OK'']
      else [])"

definition dump_state :: "('eng, 'run) world \<Rightarrow> graph \<Rightarrow> nat \<Rightarrow> item list" where
  "dump_state W g i =
     [Str ''  node'', Num i, Str '' (m='', Num (spec_m g i)] @ state_mark W i
     @ [Str ''):'', Endl] @ concat (map (dump_slot g i) [0..<spec_m g i])"

definition dump :: "('eng, 'run) world \<Rightarrow> graph \<Rightarrow> item list" where
  "dump W g =
     [Str ''Graph (n='', Num (graph_n g), Str '', o='', Num (graph_o g),
      Str '', size='', Num (sizeof_word W * graph_size W g), Str ''byte):'', Endl]
     @ concat (map (dump_state W g) [0..<graph_n g])"

subsection \<open>The runner's constructor on a window size of zero\<close>

text \<open>
  Modelled from the spec: the constructor of \<^verbatim>\<open>oclrunner\<close> (declared in \<^verbatim>\<open>engine.hpp\<close>,
  which is not among the sources; \<^verbatim>\<open>main\<close> is its caller, at line 141), on a window size
  of zero. The specification has \<^verbatim>\<open>construct(engine, max_window_size, automaton,
  profiling_enabled) -> Runner\<close> and counts a zero window size among the invalid
  configurations: a caller-facing error with a human-readable cause, which leaves no
  runner reachable. So on the size zero the constructor throws a \<^verbatim>\<open>user_error\<close>, the
  kind \<^verbatim>\<open>main\<close> reports to the caller; the wording of the cause is not given and is a
  parameter. On every other size the constructor is the one of the world \<open>W\<close>.
\<close>

definition spec_oclrunner ::
  "string \<Rightarrow> ('eng, 'run) world \<Rightarrow> 'eng \<Rightarrow> 32 word \<Rightarrow> graph \<Rightarrow> bool \<Rightarrow> error + 'run"
where
  "spec_oclrunner cause W eng max_window_size g profiling_enabled =
     (if max_window_size = 0 then Inl (user_error cause)
      else oclrunner W eng max_window_size g profiling_enabled)"

section \<open>A small world to run the program in\<close>

text \<open>
  Concrete collaborators, used to run the definitions on concrete inputs: a UTF-8
  decoder for one- and two-byte sequences that skips every other byte, as
  \<^verbatim>\<open>utf_to_utf\<close> skips invalid input; NFKC on the one character the examples use
  (U+00BD, the vulgar fraction one half, whose compatibility decomposition is the three
  code points U+0031 U+2044 U+0032); a compiler that accepts literal patterns, rejects
  unbalanced parentheses and keeps the literal as the storage of its graph; a runner
  that reports every position of its chunk where the literal begins, and refuses chunks
  whose positions do not fit 32 bits; and a file system with four files and a directory.
\<close>

fun toy_utf8 :: "string \<Rightarrow> u32string" where
  "toy_utf8 [] = []"
| "toy_utf8 [a] = (if of_char a < (128 :: nat) then [of_nat (of_char a)] else [])"
| "toy_utf8 (a # b # s) =
     (if of_char a < (128 :: nat) then of_nat (of_char a) # toy_utf8 (b # s)
      else if (194 :: nat) \<le> of_char a \<and> of_char a < (224 :: nat)
              \<and> (128 :: nat) \<le> of_char b \<and> of_char b < (192 :: nat)
           then of_nat ((of_char a - 192) * 64 + (of_char b - 128)) # toy_utf8 s
           else toy_utf8 (b # s))"

definition toy_nfkc :: "u32string \<Rightarrow> error + u32string" where
  "toy_nfkc s = Inr (concat (map (\<lambda>c. if c = 0xBD then [0x31, 0x2044, 0x32] else [c]) s))"

definition toy_string_to_graph :: "u32string \<Rightarrow> error + graph" where
  "toy_string_to_graph regex =
     (if count_list regex 0x28 \<noteq> count_list regex 0x29
      then Inl (user_error ''unbalanced group'')
      else Inr \<lparr>graph_n = 0, graph_o = 0, graph_data = regex\<rparr>)"

definition toy_run :: "u32string \<Rightarrow> u32string \<Rightarrow> error + (32 word list \<times> u32string)" where
  "toy_run literal chunk =
     (if 2 ^ 32 \<le> length chunk then Inl (std_exception ''chunk too large'')
      else Inr (map of_nat
                  (filter (\<lambda>i. take (length literal) (drop i chunk) = literal)
                     [0..<length chunk]),
                literal))"

definition toy_files :: "string \<Rightarrow> (error + string) option" where
  "toy_files name =
     (if name = ''half.txt'' then Some (Inr [CHR 0xC2, CHR 0xBD, CHR ''x''])
      else if name = ''abcab.txt'' then Some (Inr ''abcab'')
      else if name = ''invalid.txt'' then Some (Inr [CHR 0xFF])
      else if name = ''empty.txt'' then Some (Inr [])
      else if name = ''dir'' then Some (Inl (std_exception ''basic_filebuf::underflow error reading the file''))
      else None)"

definition toy_world :: "cmdline \<Rightarrow> (unit, u32string) world" where
  "toy_world vm =
     \<lparr>utf8_locale = True,
      command_line_parser = (\<lambda>argv. Inr vm),
      notify_error = (\<lambda>vm. None),
      oclengine = Inr (),
      utf_to_utf32 = toy_utf8,
      normalize_nfkc = toy_nfkc,
      string_to_graph = toy_string_to_graph,
      oclrunner = (\<lambda>eng w g profile. Inr (graph_data g)),
      run = toy_run,
      files = toy_files,
      id_begin = 0,
      id_fail = 1,
      id_ok = 2,
      sizeof_word = 4,
      graph_size = (\<lambda>g. length (graph_data g))\<rparr>"

text \<open>The command line \<^verbatim>\<open>oclgrep REGEX FILE\<close>, no option given.\<close>

definition toy_cmdline :: "string \<Rightarrow> string \<Rightarrow> cmdline" where
  "toy_cmdline regex fname =
     \<lparr>opt_regex = Some regex, opt_file = Some fname, opt_normalize_regex = False,
      opt_normalize_file = False, opt_print_graph = False, opt_print_profile = False,
      opt_no_output = False, opt_max_chunk_size = None, opt_help = False\<rparr>"

text \<open>
  The automaton of the pattern \<^verbatim>\<open>a\<close> in the format of the specification: three
  states, fan-out 1; state 0 has one slot (symbol 97, target 2), states 1 and 2 none.
\<close>

definition graph_a :: graph where
  "graph_a = \<lparr>graph_n = 3, graph_o = 1, graph_data = [3, 6, 7, 1, 97, 2, 0, 0]\<rparr>"

definition start :: process where
  "start = \<lparr>cout = [], cerr = [], calls = []\<rparr>"

section \<open>The chunking loop\<close>

subsection \<open>One iteration\<close>

lemma chunk_loop_done:
  "\<not> offset < length t \<Longrightarrow> chunk_loop W no w t r offset p = Some (Inr (), p)"
  by (subst chunk_loop.simps) simp

lemma take_min_drop:
  "take (min (offset + w) (length t) - offset) (drop offset t) = take w (drop offset t)"
proof (cases "offset + w \<le> length t")
  case True
  then show ?thesis by (simp add: min_absorb1)
next
  case False
  then show ?thesis by (simp add: min_absorb2)
qed

lemma chunk_loop_step:
  assumes "offset < length t" and "size_t_add offset (unat w) = offset + unat w"
  shows "chunk_loop W no w t r offset p =
     (case run W r (take (unat w) (drop offset t)) of
        Inl e \<Rightarrow> Some (Inl e, log_call (Run (take (unat w) (drop offset t)) (Inl e)) p)
      | Inr (result, r') \<Rightarrow>
          chunk_loop W no w t r' (offset + unat w)
            (write_cout (if no then [] else print_result offset result)
               (log_call (Run (take (unat w) (drop offset t)) (Inr result)) p)))"
proof -
  have "\<not> min (offset + unat w) (length t) < offset"
    using assms(1) by simp
  then show ?thesis
    by (subst chunk_loop.simps) (simp only: assms if_True if_False Let_def take_min_drop)
qed

text \<open>
  A text of at most \<open>2 ^ 64 - 2 ^ 32\<close> code points (every \<^verbatim>\<open>std::u32string\<close> is shorter:
  its \<^verbatim>\<open>max_size()\<close> is below \<open>2 ^ 62\<close>) leaves room for one more chunk after any offset
  inside it, so the sum \<^verbatim>\<open>offset + max_chunk_size\<close> does not wrap.
\<close>

lemma no_wrap:
  assumes "offset < length t" and "length t + 2 ^ 32 \<le> 2 ^ 64"
  shows "size_t_add offset (unat (w :: 32 word)) = offset + unat w"
proof -
  have "unat w < 2 ^ 32"
    using unsigned_less [of w, where ?'a = nat] by simp
  then show ?thesis
    using assms by (simp add: size_t_add_def)
qed

subsection \<open>The whole loop, from window \<open>k\<close> on\<close>

text \<open>
  For a positive chunk size the loop ends, whatever the runner does. \<open>results\<close> is what
  the successive \<^verbatim>\<open>run\<close> calls gave back: call number \<open>i\<close> was given window \<open>i\<close>, which
  is not empty, on the runner as call \<open>i - 1\<close> left it. The loop ends normally after the
  window that reaches the end of the text, if no call threw, and with the exception of
  the last call otherwise.
\<close>

lemma chunk_loop_effect:
  assumes w: "w \<noteq> 0" and bound: "length t + 2 ^ 32 \<le> 2 ^ 64"
  shows "\<exists>out p' results.
     chunk_loop W no w t r (k * unat w) p = Some (out, p') \<and>
     calls p' = calls p @ map (\<lambda>(i, res). Run (window (unat w) t i) res) (enumerate k results) \<and>
     cout p' = cout p @
       (if no then [] else concat (map (\<lambda>(i, res). printed (i * unat w) res) (enumerate k results))) \<and>
     cerr p' = cerr p \<and>
     (\<forall>i. k \<le> i \<and> i < k + length results \<longrightarrow> i * unat w < length t) \<and>
     (out = Inr () \<longrightarrow> length t \<le> (k + length results) * unat w) \<and>
     (\<forall>e. out = Inl e \<longrightarrow> results \<noteq> [] \<and> last results = Inl e) \<and>
     (\<forall>(i, res) \<in> set (enumerate k results). \<forall>result. res = Inr result \<longrightarrow>
        (\<exists>r0 r1. run W r0 (window (unat w) t i) = Inr (result, r1))) \<and>
     results = run_results W r (map (window (unat w) t) [k..<k + length results]) \<and>
     (out = Inr () \<longrightarrow> (\<forall>res \<in> set results. \<exists>result. res = Inr result))"
proof (induction "length t - k * unat w" arbitrary: k r p rule: less_induct)
  case less
  have wpos: "0 < unat w" using w by (simp add: unat_gt_0)
  show ?case
  proof (cases "k * unat w < length t")
    case False
    have "chunk_loop W no w t r (k * unat w) p = Some (Inr (), p)"
      using False by (rule chunk_loop_done)
    then show ?thesis
      using False by (intro exI [of _ "Inr ()"] exI [of _ p] exI [of _ "[]"]) simp
  next
    case True
    let ?c = "take (unat w) (drop (k * unat w) t)"
    have c: "window (unat w) t k = ?c"
      by (simp add: window_def)
    have next_offset: "k * unat w + unat w = Suc k * unat w"
      by simp
    have step: "chunk_loop W no w t r (k * unat w) p =
       (case run W r ?c of
          Inl e \<Rightarrow> Some (Inl e, log_call (Run ?c (Inl e)) p)
        | Inr (result, r') \<Rightarrow>
            chunk_loop W no w t r' (k * unat w + unat w)
              (write_cout (if no then [] else print_result (k * unat w) result)
                 (log_call (Run ?c (Inr result)) p)))"
      by (rule chunk_loop_step [OF True no_wrap [OF True bound]])
    show ?thesis
    proof (cases "run W r ?c")
      case (Inl e)
      have "chunk_loop W no w t r (k * unat w) p = Some (Inl e, log_call (Run ?c (Inl e)) p)"
        unfolding step Inl by simp
      moreover have "\<forall>i. k \<le> i \<and> i < k + length [Inl e :: error + 32 word list]
                       \<longrightarrow> i * unat w < length t"
        using True by (auto simp: less_Suc_eq_le)
      moreover have "run_results W r
           (map (window (unat w) t) [k..<k + length [Inl e :: error + 32 word list]]) = [Inl e]"
        using Inl by (simp add: c)
      ultimately show ?thesis
        by (intro exI [of _ "Inl e"] exI [of _ "log_call (Run ?c (Inl e)) p"] exI [of _ "[Inl e]"])
           (simp add: log_call_def printed_def c del: One_nat_def)
    next
      case (Inr a)
      obtain result r' where a: "a = (result, r')" by (cases a)
      let ?p1 = "write_cout (if no then [] else print_result (k * unat w) result)
                   (log_call (Run ?c (Inr result)) p)"
      have eq: "chunk_loop W no w t r (k * unat w) p = chunk_loop W no w t r' (Suc k * unat w) ?p1"
        unfolding step Inr a next_offset by simp
      have "length t - Suc k * unat w < length t - k * unat w"
        using True wpos by simp
      from less [OF this, of r' ?p1]
      obtain out p' results where
        rest: "chunk_loop W no w t r' (Suc k * unat w) ?p1 = Some (out, p')"
        and cl: "calls p' = calls ?p1 @
                 map (\<lambda>(i, res). Run (window (unat w) t i) res) (enumerate (Suc k) results)"
        and co: "cout p' = cout ?p1 @
                 (if no then []
                  else concat (map (\<lambda>(i, res). printed (i * unat w) res) (enumerate (Suc k) results)))"
        and ce: "cerr p' = cerr ?p1"
        and ne: "\<forall>i. Suc k \<le> i \<and> i < Suc k + length results \<longrightarrow> i * unat w < length t"
        and fin: "out = Inr () \<longrightarrow> length t \<le> (Suc k + length results) * unat w"
        and err: "\<forall>e. out = Inl e \<longrightarrow> results \<noteq> [] \<and> last results = Inl e"
        and src: "\<forall>(i, res) \<in> set (enumerate (Suc k) results). \<forall>result. res = Inr result \<longrightarrow>
                   (\<exists>r0 r1. run W r0 (window (unat w) t i) = Inr (result, r1))"
        and seq: "results = run_results W r'
                   (map (window (unat w) t) [Suc k..<Suc k + length results])"
        and ok: "out = Inr () \<longrightarrow> (\<forall>res \<in> set results. \<exists>result. res = Inr result)"
        by blast
      let ?rs = "Inr result # results"
      have 1: "chunk_loop W no w t r (k * unat w) p = Some (out, p')"
        using eq rest by simp
      have 2: "calls p' = calls p @ map (\<lambda>(i, res). Run (window (unat w) t i) res) (enumerate k ?rs)"
        using cl by (simp add: write_cout_def log_call_def c)
      have 3: "cout p' = cout p @
         (if no then [] else concat (map (\<lambda>(i, res). printed (i * unat w) res) (enumerate k ?rs)))"
        using co by (simp add: write_cout_def log_call_def printed_def)
      have 4: "cerr p' = cerr p"
        using ce by (simp add: write_cout_def log_call_def)
      have 5: "\<forall>i. k \<le> i \<and> i < k + length ?rs \<longrightarrow> i * unat w < length t"
      proof (intro allI impI)
        fix i assume i: "k \<le> i \<and> i < k + length ?rs"
        show "i * unat w < length t"
        proof (cases "i = k")
          case True
          then show ?thesis using \<open>k * unat w < length t\<close> by simp
        next
          case False
          then have "Suc k \<le> i \<and> i < Suc k + length results" using i by simp
          then show ?thesis using ne by blast
        qed
      qed
      have 6: "out = Inr () \<longrightarrow> length t \<le> (k + length ?rs) * unat w"
        using fin by simp
      have 7: "\<forall>e. out = Inl e \<longrightarrow> ?rs \<noteq> [] \<and> last ?rs = Inl e"
        using err by simp
      have 8: "\<forall>(i, res) \<in> set (enumerate k ?rs). \<forall>result. res = Inr result \<longrightarrow>
                   (\<exists>r0 r1. run W r0 (window (unat w) t i) = Inr (result, r1))"
        using src Inr a c by auto
      have upt: "[k..<k + length ?rs] = k # [Suc k..<Suc k + length results]"
        by (subst upt_rec) simp
      have 9: "?rs = run_results W r (map (window (unat w) t) [k..<k + length ?rs])"
        unfolding upt using seq Inr a by (simp add: c)
      have 10: "out = Inr () \<longrightarrow> (\<forall>res \<in> set ?rs. \<exists>result. res = Inr result)"
        using ok by simp
      show ?thesis
        using 1 2 3 4 5 6 7 8 9 10 by blast
    qed
  qed
qed

subsection \<open>Successive \<^verbatim>\<open>run\<close> calls\<close>

lemma run_results_nonempty: "cs \<noteq> [] \<Longrightarrow> run_results W r cs \<noteq> []"
  by (cases cs) (auto split: sum.splits)

lemma run_results_stops:
  assumes "run_results W r cs \<noteq> []" and "last (run_results W r cs) = Inl e"
  shows "run_results W r (cs @ ds) = run_results W r cs"
  using assms
proof (induction cs arbitrary: r)
  case Nil
  then show ?case by simp
next
  case (Cons c cs)
  show ?case
  proof (cases "run W r c")
    case (Inl e')
    then show ?thesis by simp
  next
    case (Inr a)
    obtain result r' where a: "a = (result, r')" by (cases a)
    have ne: "run_results W r' cs \<noteq> []"
      using Cons.prems Inr a by (auto split: if_splits)
    then have "last (run_results W r' cs) = Inl e"
      using Cons.prems Inr a by simp
    from Cons.IH [OF ne this] show ?thesis
      using Inr a by simp
  qed
qed

lemma run_results_nth:
  assumes "i < length (run_results W r cs)"
  shows "\<exists>r0. (\<forall>e. run_results W r cs ! i = Inl e \<longrightarrow> run W r0 (cs ! i) = Inl e) \<and>
              (\<forall>result. run_results W r cs ! i = Inr result \<longrightarrow>
                 (\<exists>r1. run W r0 (cs ! i) = Inr (result, r1)))"
  using assms
proof (induction cs arbitrary: r i)
  case Nil
  then show ?case by simp
next
  case (Cons c cs)
  show ?case
  proof (cases "run W r c")
    case (Inl e)
    then show ?thesis using Cons.prems by (intro exI [of _ r]) simp
  next
    case (Inr a)
    obtain result r' where a: "a = (result, r')" by (cases a)
    show ?thesis
    proof (cases i)
      case 0
      then show ?thesis using Inr a by (intro exI [of _ r]) simp
    next
      case (Suc j)
      then have "j < length (run_results W r' cs)"
        using Cons.prems Inr a by simp
      from Cons.IH [OF this] show ?thesis
        using Inr a by (simp add: Suc)
    qed
  qed
qed

lemma run_results_thrown:
  assumes "run_results W r cs \<noteq> []" and "last (run_results W r cs) = Inl e"
  shows "\<exists>r0. run W r0 (cs ! (length (run_results W r cs) - 1)) = Inl e"
proof -
  let ?rs = "run_results W r cs"
  have "length ?rs - 1 < length ?rs" using assms(1) by simp
  moreover have "?rs ! (length ?rs - 1) = Inl e"
    using assms by (simp add: last_conv_nth)
  ultimately show ?thesis
    using run_results_nth [of "length ?rs - 1" W r cs] by blast
qed

subsection \<open>Windows and the count of calls\<close>

lemma run_chunks_append: "run_chunks (xs @ ys) = run_chunks xs @ run_chunks ys"
  by (induction xs rule: run_chunks.induct) simp_all

lemma run_chunks_enumerate:
  "run_chunks (map (\<lambda>(i, res). Run (f i) res) (enumerate k results))
     = map f [k..<k + length results]"
proof (induction results arbitrary: k)
  case Nil
  then show ?case by simp
next
  case (Cons x xs)
  have "[k..<k + length (x # xs)] = k # [Suc k..<Suc k + length xs]"
    by (subst upt_rec) simp
  then show ?case using Cons [of "Suc k"] by simp
qed

lemma concat_windows: "concat (map (window w t) [0..<m]) = take (m * w) t"
proof (induction m)
  case 0
  then show ?case by simp
next
  case (Suc m)
  have "take (m * w + w) t = take (m * w) t @ take w (drop (m * w) t)"
    by (rule take_add)
  moreover have "Suc m * w = m * w + w"
    by simp
  ultimately show ?case using Suc by (simp add: window_def del: mult_Suc)
qed

lemma calls_le_ceiling:
  assumes "0 < w" and "0 < m" and "(m - 1) * w < L"
  shows "m \<le> nat \<lceil>real L / real w\<rceil>"
proof -
  have "real (m - 1) * real w < real L"
    using assms(3) by (metis of_nat_less_iff of_nat_mult)
  then have "real (m - 1) < real L / real w"
    using assms(1) by (simp add: pos_less_divide_eq)
  then have "of_int (int m) - 1 < real L / real w"
    using assms(2) by (simp add: of_nat_diff)
  then have "int m \<le> \<lceil>real L / real w\<rceil>"
    by (simp only: le_ceiling_iff)
  then show ?thesis by linarith
qed

lemma calls_eq_ceiling:
  assumes "0 < w" and "0 < m" and "(m - 1) * w < L" and "L \<le> m * w"
  shows "m = nat \<lceil>real L / real w\<rceil>"
proof -
  have "real L \<le> real m * real w"
    using assms(4) by (metis of_nat_le_iff of_nat_mult)
  then have "real L / real w \<le> real m"
    using assms(1) by (simp add: pos_divide_le_eq)
  then have "\<lceil>real L / real w\<rceil> \<le> int m"
    by (simp add: ceiling_le_iff)
  then have "nat \<lceil>real L / real w\<rceil> \<le> m" by linarith
  with calls_le_ceiling [OF assms(1,2,3)] show ?thesis
    by (rule le_antisym)
qed

lemma several_calls:
  assumes "0 < w" and "w < L"
  shows "1 < nat \<lceil>real L / real w\<rceil>"
proof -
  have "real w < real L" using assms(2) by simp
  then have "1 < real L / real w"
    using assms(1) by (simp add: pos_less_divide_eq)
  then have "(1::int) < \<lceil>real L / real w\<rceil>"
    by (simp add: less_ceiling_iff)
  then show ?thesis by linarith
qed

text \<open>The toy world's runs, by the kernel's simplifier.\<close>

lemmas toy_defs =
  toy_world_def toy_cmdline_def toy_run_def toy_nfkc_def toy_string_to_graph_def
  toy_files_def start_def size_t_add_def log_call_def write_cout_def write_cerr_def
  print_result_def

lemma toy_loop_abcdefg:
  "chunk_loop (toy_world vm) False 3 [97, 98, 99, 100, 101, 102, 103] [101] 0 start =
     Some (Inr (), \<lparr>cout = [Num 4, Endl], cerr = [],
                     calls = [Run [97, 98, 99] (Inr []), Run [100, 101, 102] (Inr [1]),
                              Run [103] (Inr [])]\<rparr>)"
  by (simp add: chunk_loop.simps toy_defs Let_def)

subsection \<open>Printed positions\<close>

lemma print_result_no_wrap:
  assumes "offset < length t" and "length t + 2 ^ 32 \<le> 2 ^ 64"
  shows "print_result offset result = concat (map (\<lambda>idx. [Num (offset + unat idx), Endl]) result)"
proof -
  have "size_t_add offset (unat idx) = offset + unat idx" for idx :: "32 word"
    using assms by (rule no_wrap)
  then show ?thesis by (simp add: print_result_def)
qed

lemma numbers_append: "numbers (xs @ ys) = numbers xs @ numbers ys"
  by (induction xs rule: numbers.induct) simp_all

lemma numbers_concat: "numbers (concat xss) = concat (map numbers xss)"
  by (induction xss) (simp_all add: numbers_append)

lemma numbers_positions:
  "numbers (concat (map (\<lambda>idx. [Num (f idx), Endl]) result)) = map f result"
  by (induction result) simp_all

lemma blocks_ascending:
  assumes "\<forall>(i, res) \<in> set (enumerate k results).
             sorted_wrt (<) (f i res) \<and> (\<forall>x \<in> set (f i res). i * w \<le> x \<and> x < Suc i * w)"
  shows "sorted_wrt (<) (concat (map (\<lambda>(i, res). f i res) (enumerate k results))) \<and>
         (\<forall>x \<in> set (concat (map (\<lambda>(i, res). f i res) (enumerate k results))). k * (w::nat) \<le> x)"
  using assms
proof (induction results arbitrary: k)
  case Nil
  then show ?case by simp
next
  case (Cons res results)
  let ?rest = "concat (map (\<lambda>(i, res). f i res) (enumerate (Suc k) results))"
  have hd: "sorted_wrt (<) (f k res)" "\<forall>x \<in> set (f k res). k * w \<le> x \<and> x < Suc k * w"
    using Cons.prems by simp_all
  have "\<forall>(i, res) \<in> set (enumerate (Suc k) results).
          sorted_wrt (<) (f i res) \<and> (\<forall>x \<in> set (f i res). i * w \<le> x \<and> x < Suc i * w)"
    using Cons.prems by simp
  from Cons.IH [OF this]
  have tl: "sorted_wrt (<) ?rest" "\<forall>x \<in> set ?rest. Suc k * w \<le> x"
    by simp_all
  have cross: "\<forall>x \<in> set (f k res). \<forall>y \<in> set ?rest. x < y"
    using hd(2) tl(2) by fastforce
  have low: "\<forall>x \<in> set ?rest. k * w \<le> x"
  proof
    fix x assume "x \<in> set ?rest"
    then have "Suc k * w \<le> x" using tl(2) by blast
    then show "k * w \<le> x" by simp
  qed
  have eq: "concat (map (\<lambda>(i, res). f i res) (enumerate k (res # results))) = f k res @ ?rest"
    by simp
  have "sorted_wrt (<) (f k res @ ?rest)"
    unfolding sorted_wrt_append using hd(1) tl(1) cross by blast
  moreover have "\<forall>x \<in> set (f k res @ ?rest). k * w \<le> x"
    unfolding set_append using hd(2) low by blast
  ultimately show ?case
    unfolding eq by blast
qed

text \<open>
  What the \<^verbatim>\<open>run\<close> calls contribute to the output when every window starts inside
  the text: no sum wraps.
\<close>

lemma printed_windows:
  assumes "\<forall>i. i < length results \<longrightarrow> i * w < length t" and "length t + 2 ^ 32 \<le> 2 ^ 64"
  shows "map (\<lambda>(i, res). printed (i * w) res) (enumerate 0 results) =
         map (\<lambda>(k, res). case res of
                 Inl e \<Rightarrow> []
               | Inr result \<Rightarrow> concat (map (\<lambda>idx. [Num (k * w + unat idx), Endl]) result))
           (enumerate 0 results)"
proof (rule map_cong [OF refl])
  fix x assume x: "x \<in> set (enumerate 0 results)"
  obtain k res where kres: "x = (k, res)" by (cases x)
  have "k < length results"
    using x kres by (simp add: in_set_enumerate_eq)
  then have "k * w < length t" using assms(1) by simp
  then show "(case x of (i, res) \<Rightarrow> printed (i * w) res) =
      (case x of (k, res) \<Rightarrow> case res of
              Inl e \<Rightarrow> []
            | Inr result \<Rightarrow> concat (map (\<lambda>idx. [Num (k * w + unat idx), Endl]) result))"
    using print_result_no_wrap [OF _ assms(2)]
    by (simp add: kres printed_def split: sum.splits)
qed

text \<open>The toy runner reports ascending positions inside its chunk.\<close>

lemma toy_run_ascending:
  assumes "toy_run literal c = Inr (result, r1)"
  shows "sorted_wrt (<) (map unat result) \<and> (\<forall>idx \<in> set result. unat idx < length c)"
proof -
  let ?hits = "filter (\<lambda>i. take (length literal) (drop i c) = literal) [0..<length c]"
  have small: "length c < 2 ^ 32" and result: "result = map of_nat ?hits"
    using assms by (auto simp: toy_run_def split: if_splits)
  have "unat (of_nat i :: 32 word) = i" if "i \<in> set ?hits" for i
  proof -
    have "i < 2 ^ 32" using that small by simp
    then show ?thesis by (simp add: unat_of_nat)
  qed
  then have "map (unat \<circ> (of_nat :: nat \<Rightarrow> 32 word)) ?hits = ?hits"
    by (intro map_idI) simp
  then have hits: "map unat result = ?hits"
    unfolding result by simp
  have "sorted_wrt (<) ?hits"
    by (rule sorted_wrt_filter) (rule sorted_wrt_upt)
  moreover have "\<forall>i \<in> set ?hits. i < length c"
    by simp
  ultimately have "sorted_wrt (<) (map unat result) \<and> (\<forall>i \<in> set (map unat result). i < length c)"
    unfolding hits by blast
  then show ?thesis by simp
qed

lemma toy_loop_abcab:
  "chunk_loop (toy_world vm) False 2 [97, 98, 99, 97, 98] [98] 0 start =
     Some (Inr (), \<lparr>cout = [Num 1, Endl, Num 4, Endl], cerr = [],
                     calls = [Run [97, 98] (Inr [1]), Run [99, 97] (Inr []),
                              Run [98] (Inr [0])]\<rparr>)"
  by (simp add: chunk_loop.simps toy_defs Let_def)

section \<open>\<^verbatim>\<open>main\<close>\<close>

subsection \<open>The way to the loop\<close>

lemma main_try_prologue:
  assumes "utf8_locale W" and "command_line_parser W argv = Inr vm" and "\<not> opt_help vm"
    and "notify_error W vm = None"
  shows "main_try W argv p = compile_and_search W vm (log_call Parse_Command_Line p)"
  using assms by (simp add: main_try_def)

lemma compile_and_search_runner:
  assumes "oclengine W = Inr eng"
    and "(if opt_normalize_regex vm then normalize_nfkc W (utf_to_utf32 W (regex_utf8 vm))
          else Inr (utf_to_utf32 W (regex_utf8 vm))) = Inr regex_utf32"
    and "string_to_graph W regex_utf32 = Inr g"
    and "(if opt_print_graph vm then print_graph W g else Inr []) = Inr dmp"
    and "oclrunner W eng (max_chunk_size vm) g (opt_print_profile vm) = Inr runner"
  shows "compile_and_search W vm p =
           load_and_search W vm runner
             (log_call (Runner_Init (max_chunk_size vm))
                (write_cout dmp (log_call (Compile regex_utf32) (log_call Engine_Init p))))"
  using assms(1,3,4,5) unfolding compile_and_search_def Let_def assms(2) by simp

lemmas main_defs =
  main_def main_try_def compile_and_search_def load_and_search_def readfile_def regex_utf8_def
  file_name_def max_chunk_size_def EXIT_SUCCESS_def EXIT_FAILURE_def



text \<open>
  A path that opens and cannot be read (a directory): the exception of the stream buffer
  is not a \<^verbatim>\<open>user_error\<close>, so the second handler prints the banner of an internal error.
\<close>

lemma toy_directory:
  "main (toy_world (toy_cmdline ''a'' ''dir'')) [''a'', ''dir''] =
     Some (Returned EXIT_FAILURE,
           \<lparr>cout = [],
            cerr = internal_error_banner ''basic_filebuf::underflow error reading the file'',
            calls = [Parse_Command_Line, Engine_Init, Compile [97], Runner_Init 16777216,
                     Read_File ''dir'']\<rparr>)"
  by (simp add: main_defs toy_defs)

section \<open>\<^verbatim>\<open>print_graph\<close> against the format\<close>

text \<open>
  Each loop of \<^verbatim>\<open>print_graph\<close>, from any value of its counter on, prints what the
  accessors of the format give, provided the words it reads lie inside the storage.
\<close>

lemma data_at_inside: "i < length (graph_data g) \<Longrightarrow> data_at g i = Inr (graph_data g ! i)"
  by (simp add: data_at_def)

lemma print_entries_dump:
  assumes "\<forall>j. i \<le> j \<and> j < graph_o g \<longrightarrow> b + j < length (graph_data g)"
  shows "print_entries g b i =
           Inr (concat (map (\<lambda>j. (if 0 < j then [Str '',''] else []) @
                                  [Num (unat (graph_data g ! (b + j)))]) [i..<graph_o g]))"
  using assms
proof (induction g b i rule: print_entries.induct)
  case (1 g b i)
  show ?case
  proof (cases "i < graph_o g")
    case False
    then show ?thesis by (subst print_entries.simps) simp
  next
    case True
    have here: "data_at g (b + i) = Inr (graph_data g ! (b + i))"
      using "1.prems" True by (simp add: data_at_inside)
    have "\<forall>j. i + 1 \<le> j \<and> j < graph_o g \<longrightarrow> b + j < length (graph_data g)"
      using "1.prems" by simp
    from "1.IH" [OF True refl here this]
    have rest: "print_entries g b (Suc i) =
        Inr (concat (map (\<lambda>j. (if 0 < j then [Str '',''] else []) @
                               [Num (unat (graph_data g ! (b + j)))]) [Suc i..<graph_o g]))"
      by simp
    have upt: "[i..<graph_o g] = i # [Suc i..<graph_o g]"
      using True by (simp add: upt_conv_Cons)
    show ?thesis
      by (subst print_entries.simps) (simp add: True here rest upt del: upt_Suc)
  qed
qed


lemma print_value_slots_dump:
  assumes "\<forall>k. i \<le> k \<and> k < m \<longrightarrow>
             body + k * (1 + graph_o g) < length (graph_data g) \<and>
             (\<forall>j < graph_o g. body + k * (1 + graph_o g) + 1 + j < length (graph_data g))"
  shows "print_value_slots g body m i =
           Inr (concat (map (\<lambda>k.
                  [Str ''    '', Num (unat (graph_data g ! (body + k * (1 + graph_o g)))),
                   Str '' => ['']
                  @ concat (map (\<lambda>j. (if 0 < j then [Str '',''] else []) @
                       [Num (unat (graph_data g ! (body + k * (1 + graph_o g) + 1 + j)))])
                       [0..<graph_o g])
                  @ [Str '']'', Endl]) [i..<m]))"
  using assms
proof (induction g body m i rule: print_value_slots.induct)
  case (1 g body m i)
  show ?case
  proof (cases "i < m")
    case False
    then show ?thesis by (subst print_value_slots.simps) simp
  next
    case True
    let ?slot = "body + i * (1 + graph_o g)"
    have inside: "?slot < length (graph_data g)"
      and targets: "\<forall>j. 0 \<le> j \<and> j < graph_o g \<longrightarrow> ?slot + 1 + j < length (graph_data g)"
      using "1.prems" True by simp_all
    have here: "data_at g ?slot = Inr (graph_data g ! ?slot)"
      using inside by (rule data_at_inside)
    have entries: "print_entries g (?slot + 1) 0 =
        Inr (concat (map (\<lambda>j. (if 0 < j then [Str '',''] else []) @
                               [Num (unat (graph_data g ! (?slot + 1 + j)))]) [0..<graph_o g]))"
      using targets by (rule print_entries_dump)
    have "\<forall>k. i + 1 \<le> k \<and> k < m \<longrightarrow>
             body + k * (1 + graph_o g) < length (graph_data g) \<and>
             (\<forall>j < graph_o g. body + k * (1 + graph_o g) + 1 + j < length (graph_data g))"
      using "1.prems" by simp
    from "1.IH" [OF True refl here refl entries this]
    have rest: "print_value_slots g body m (i + 1) =
           Inr (concat (map (\<lambda>k.
                  [Str ''    '', Num (unat (graph_data g ! (body + k * (1 + graph_o g)))),
                   Str '' => ['']
                  @ concat (map (\<lambda>j. (if 0 < j then [Str '',''] else []) @
                       [Num (unat (graph_data g ! (body + k * (1 + graph_o g) + 1 + j)))])
                       [0..<graph_o g])
                  @ [Str '']'', Endl]) [i + 1..<m]))" .
    have upt: "[i..<m] = i # [i + 1..<m]"
      using True by (simp add: upt_conv_Cons)
    show ?thesis
      by (subst print_value_slots.simps, simp only: True if_True Let_def here entries rest sum.case upt)
         simp
  qed
qed

lemma records_in_storageD:
  assumes "records_in_storage g" and "i < graph_n g"
  shows "i < length (graph_data g)"
    and "spec_base g i < length (graph_data g)"
    and "\<forall>k. 0 \<le> k \<and> k < spec_m g i \<longrightarrow>
           spec_base g i + 1 + k * (1 + graph_o g) < length (graph_data g) \<and>
           (\<forall>j < graph_o g.
              spec_base g i + 1 + k * (1 + graph_o g) + 1 + j < length (graph_data g))"
  using assms by (simp_all add: records_in_storage_def list_all_iff)

lemma print_nodes_dump:
  assumes "records_in_storage g"
  shows "print_nodes W g i = Inr (concat (map (dump_state W g) [i..<graph_n g]))"
  using assms
proof (induction W g i rule: print_nodes.induct)
  case (1 W g i)
  show ?case
  proof (cases "i < graph_n g")
    case False
    then show ?thesis by (subst print_nodes.simps) simp
  next
    case True
    note wf = records_in_storageD [OF "1.prems" True]
    have here: "data_at g i = Inr (graph_data g ! i)"
      using wf(1) by (rule data_at_inside)
    have base: "data_at g (unat (graph_data g ! i)) = Inr (graph_data g ! unat (graph_data g ! i))"
      using wf(2) by (simp add: data_at_inside spec_base_def)
    have "print_value_slots g (spec_base g i + 1) (spec_m g i) 0 =
           Inr (concat (map (\<lambda>k.
                  [Str ''    '', Num (unat (graph_data g ! (spec_base g i + 1 + k * (1 + graph_o g)))),
                   Str '' => ['']
                  @ concat (map (\<lambda>j. (if 0 < j then [Str '',''] else []) @
                       [Num (unat (graph_data g ! (spec_base g i + 1 + k * (1 + graph_o g) + 1 + j)))])
                       [0..<graph_o g])
                  @ [Str '']'', Endl]) [0..<spec_m g i]))"
      using wf(3) by (rule print_value_slots_dump)
    moreover have "(\<lambda>k.
                  [Str ''    '', Num (unat (graph_data g ! (spec_base g i + 1 + k * (1 + graph_o g)))),
                   Str '' => ['']
                  @ concat (map (\<lambda>j. (if 0 < j then [Str '',''] else []) @
                       [Num (unat (graph_data g ! (spec_base g i + 1 + k * (1 + graph_o g) + 1 + j)))])
                       [0..<graph_o g])
                  @ [Str '']'', Endl]) = dump_slot g i"
      by (rule ext) (simp only: dump_slot_def dump_targets_def spec_symbol_def spec_target_def)
    ultimately have slots: "print_value_slots g (unat (graph_data g ! i) + 1)
                   (unat (graph_data g ! unat (graph_data g ! i))) 0 =
                 Inr (concat (map (dump_slot g i) [0..<spec_m g i]))"
      by (simp only: spec_base_def spec_m_def)
    from "1.IH" [OF True here refl base refl refl slots "1.prems"]
    have rest: "print_nodes W g (i + 1) = Inr (concat (map (dump_state W g) [i + 1..<graph_n g]))" .
    have upt: "[i..<graph_n g] = i # [i + 1..<graph_n g]"
      using True by (simp add: upt_conv_Cons)
    show ?thesis
      by (subst print_nodes.simps, simp only: True if_True Let_def here base slots rest sum.case upt)
         (simp add: dump_state_def state_mark_def spec_m_def spec_base_def)
  qed
qed

section \<open>Properties of the program\<close>

text \<open>
  C1. For every non-empty decoded text and every positive \<^verbatim>\<open>max_chunk_size\<close> \<open>w\<close>, the
  chunking loop cuts the text into consecutive, non-overlapping windows of at most \<open>w\<close>
  code points whose concatenation is the text. The loop ends. \<open>results\<close> is what its
  \<^verbatim>\<open>run\<close> calls gave back: there is at least one call; call \<open>k\<close> is given window \<open>k\<close> of
  the text (the code points from position \<open>k * w\<close> on, at most \<open>w\<close> of them), on the runner
  as call \<open>k - 1\<close> left it, and after a call that threw there is no other; every window
  handed out is non-empty and has at most \<open>w\<close> code points; their concatenation is a
  prefix of the text. The loop ends normally exactly when no call threw, and then the
  concatenation of the windows is the whole text; otherwise it ends with the exception
  that \<^verbatim>\<open>run\<close> threw on the last window handed out. In particular, when \<^verbatim>\<open>run\<close>
  throws on no window of the text, the windows handed out make up the whole text. The
  text has at most \<open>2 ^ 64 - 2 ^ 32\<close> code points, as every \<^verbatim>\<open>std::u32string\<close> has.
\<close>

theorem chunking_partitions_text:
  assumes "w \<noteq> 0" and "t \<noteq> []" and "length t + 2 ^ 32 \<le> 2 ^ 64"
  shows "\<exists>out p' results.
     chunk_loop W no w t r 0 p = Some (out, p') \<and>
     calls p' = calls p @ map (\<lambda>(k, res). Run (window (unat w) t k) res) (enumerate 0 results) \<and>
     results = run_results W r (map (window (unat w) t) [0..<length results]) \<and>
     results \<noteq> [] \<and>
     (\<forall>k<length results. window (unat w) t k \<noteq> [] \<and> length (window (unat w) t k) \<le> unat w) \<and>
     prefix (concat (map (window (unat w) t) [0..<length results])) t \<and>
     (out = Inr () \<longleftrightarrow> (\<forall>res \<in> set results. \<exists>result. res = Inr result)) \<and>
     (out = Inr () \<longrightarrow> concat (map (window (unat w) t) [0..<length results]) = t) \<and>
     (\<forall>e. out = Inl e \<longrightarrow>
        last results = Inl e \<and>
        (\<exists>r0. run W r0 (window (unat w) t (length results - 1)) = Inl e)) \<and>
     ((\<forall>r0 k e. run W r0 (window (unat w) t k) \<noteq> Inl e) \<longrightarrow>
        out = Inr () \<and> concat (map (window (unat w) t) [0..<length results]) = t)"
proof -
  have wpos: "0 < unat w" using assms(1) by (simp add: unat_gt_0)
  from chunk_loop_effect [OF assms(1,3), of W no r 0 p]
  obtain out p' results where
    run: "chunk_loop W no w t r 0 p = Some (out, p')"
    and cl: "calls p' = calls p @
              map (\<lambda>(i, res). Run (window (unat w) t i) res) (enumerate 0 results)"
    and ne: "\<forall>i. i < length results \<longrightarrow> i * unat w < length t"
    and fin: "out = Inr () \<longrightarrow> length t \<le> length results * unat w"
    and err: "\<forall>e. out = Inl e \<longrightarrow> results \<noteq> [] \<and> last results = Inl e"
    and seq: "results = run_results W r (map (window (unat w) t) [0..<length results])"
    and ok: "out = Inr () \<longrightarrow> (\<forall>res \<in> set results. \<exists>result. res = Inr result)"
    by auto
  let ?m = "length results"
  let ?cs = "map (window (unat w) t) [0..<?m]"
  have 2: "results \<noteq> []"
  proof (cases out)
    case (Inl e)
    then show ?thesis using err by simp
  next
    case (Inr u)
    then have "length t \<le> ?m * unat w" using fin by simp
    then show ?thesis using assms(2) by (cases results) simp_all
  qed
  have 3: "\<forall>k<?m. window (unat w) t k \<noteq> [] \<and> length (window (unat w) t k) \<le> unat w"
    using ne wpos by (auto simp: window_def)
  have 4: "prefix (concat ?cs) t"
    by (simp add: concat_windows take_is_prefix)
  have 5: "out = Inr () \<longrightarrow> concat ?cs = t"
    using fin by (simp add: concat_windows)
  have 6: "\<forall>e. out = Inl e \<longrightarrow>
        last results = Inl e \<and> (\<exists>r0. run W r0 (window (unat w) t (?m - 1)) = Inl e)"
  proof (intro allI impI)
    fix e assume "out = Inl e"
    then have l: "last results = Inl e" using err by simp
    have "run_results W r ?cs \<noteq> []" "last (run_results W r ?cs) = Inl e"
      using 2 l seq by simp_all
    from run_results_thrown [OF this]
    obtain r0 where "run W r0 (?cs ! (length (run_results W r ?cs) - 1)) = Inl e" ..
    then have "run W r0 (?cs ! (?m - 1)) = Inl e"
      using seq by simp
    moreover have "?cs ! (?m - 1) = window (unat w) t (?m - 1)"
      using 2 by simp
    ultimately show "last results = Inl e \<and> (\<exists>r0. run W r0 (window (unat w) t (?m - 1)) = Inl e)"
      using l by auto
  qed
  have 7: "out = Inr () \<longleftrightarrow> (\<forall>res \<in> set results. \<exists>result. res = Inr result)"
  proof
    assume "out = Inr ()"
    then show "\<forall>res \<in> set results. \<exists>result. res = Inr result" using ok by simp
  next
    assume all: "\<forall>res \<in> set results. \<exists>result. res = Inr result"
    show "out = Inr ()"
    proof (cases out)
      case (Inl e)
      then have "last results = Inl e" using err by simp
      then have "Inl e \<in> set results" using 2 last_in_set by metis
      then show ?thesis using all by auto
    next
      case (Inr u)
      then show ?thesis by simp
    qed
  qed
  have 8: "(\<forall>r0 k e. run W r0 (window (unat w) t k) \<noteq> Inl e) \<longrightarrow> out = Inr () \<and> concat ?cs = t"
  proof
    assume never: "\<forall>r0 k e. run W r0 (window (unat w) t k) \<noteq> Inl e"
    have "out = Inr ()"
    proof (cases out)
      case (Inl e)
      then show ?thesis using 6 never by blast
    next
      case (Inr u)
      then show ?thesis by simp
    qed
    then show "out = Inr () \<and> concat ?cs = t" using 5 by simp
  qed
  show ?thesis
    using run cl seq 2 3 4 5 6 7 8 by blast
qed

text \<open>
  The text \<^verbatim>\<open>abcdefg\<close> in chunks of three, searched for \<^verbatim>\<open>e\<close>: the loop hands
  \<^verbatim>\<open>abc\<close>, \<^verbatim>\<open>def\<close> and \<^verbatim>\<open>g\<close> to the runner, in this order, and ends normally.
\<close>

theorem chunking_partitions_text_witness:
  "(3 :: 32 word) \<noteq> 0 \<and> [97, 98, 99, 100, 101, 102, 103 :: 32 word] \<noteq> [] \<and>
   length [97, 98, 99, 100, 101, 102, 103 :: 32 word] + 2 ^ 32 \<le> 2 ^ 64 \<and>
   chunk_loop (toy_world (toy_cmdline ''e'' ''abcdefg.txt'')) False 3
       [97, 98, 99, 100, 101, 102, 103] [101] 0 start =
     Some (Inr (), \<lparr>cout = [Num 4, Endl], cerr = [],
                     calls = [Run [97, 98, 99] (Inr []), Run [100, 101, 102] (Inr [1]),
                              Run [103] (Inr [])]\<rparr>) \<and>
   map (window (unat (3 :: 32 word)) [97, 98, 99, 100, 101, 102, 103 :: 32 word]) [0..<3] =
     [[97, 98, 99], [100, 101, 102], [103]] \<and>
   concat (map (window (unat (3 :: 32 word)) [97, 98, 99, 100, 101, 102, 103 :: 32 word]) [0..<3]) =
     [97, 98, 99, 100, 101, 102, 103]"
proof -
  let ?t = "[97, 98, 99, 100, 101, 102, 103 :: 32 word]"
  let ?W = "toy_world (toy_cmdline ''e'' ''abcdefg.txt'')"
  let ?p = "\<lparr>cout = [Num 4, Endl], cerr = [],
             calls = [Run [97, 98, 99] (Inr []), Run [100, 101, 102] (Inr [1]),
                      Run [103] (Inr [])]\<rparr>"
  have hyps: "(3 :: 32 word) \<noteq> 0" "?t \<noteq> []" "length ?t + 2 ^ 32 \<le> 2 ^ 64"
    by simp_all
  have loop: "chunk_loop ?W False 3 ?t [101] 0 start = Some (Inr (), ?p)"
    by (rule toy_loop_abcdefg)
  from chunking_partitions_text [OF hyps, of ?W False "[101]" start]
  obtain out p' results where
    run: "chunk_loop ?W False 3 ?t [101] 0 start = Some (out, p')"
    and cl: "calls p' = calls start @
               map (\<lambda>(k, res). Run (window (unat (3 :: 32 word)) ?t k) res) (enumerate 0 results)"
    and whole: "out = Inr () \<longrightarrow>
               concat (map (window (unat (3 :: 32 word)) ?t) [0..<length results]) = ?t"
    by blast
  have out: "out = Inr ()" and p': "p' = ?p"
    using run unfolding loop by simp_all
  have "length (calls p') = length results"
    unfolding cl by (simp add: start_def)
  then have "length results = 3"
    unfolding p' by simp
  then have whole3: "concat (map (window (unat (3 :: 32 word)) ?t) [0..<3]) = ?t"
    using whole out by simp
  have windows: "map (window (unat (3 :: 32 word)) ?t) [0..<3] = [[97, 98, 99], [100, 101, 102], [103]]"
    by (simp add: window_def upt_conv_Cons)
  show ?thesis
    using hyps loop windows whole3 by - (intro conjI; assumption)
qed

text \<open>
  C2. For every window, beginning at base offset \<open>k * w\<close>, and every local index \<open>idx\<close>
  that \<^verbatim>\<open>run\<close> returns for it, the loop prints the global position \<open>k * w + idx\<close>; and
  what it prints is exactly these positions, window after window and in the order of
  each result; with \<^verbatim>\<open>--no-output\<close> it prints nothing. \<open>results\<close> is what the
  successive \<^verbatim>\<open>run\<close> calls gave back: call \<open>k\<close> was given window \<open>k\<close>.
\<close>

theorem positions_are_offset_plus_index:
  assumes "w \<noteq> 0" and "length t + 2 ^ 32 \<le> 2 ^ 64"
  shows "\<exists>out p' results.
     chunk_loop W no w t r 0 p = Some (out, p') \<and>
     calls p' = calls p @ map (\<lambda>(k, res). Run (window (unat w) t k) res) (enumerate 0 results) \<and>
     (\<forall>(k, res) \<in> set (enumerate 0 results). \<forall>result. res = Inr result \<longrightarrow>
        (\<exists>r0 r1. run W r0 (window (unat w) t k) = Inr (result, r1))) \<and>
     cout p' = cout p @
       (if no then []
        else concat (map (\<lambda>(k, res). case res of
                              Inl e \<Rightarrow> []
                            | Inr result \<Rightarrow>
                                concat (map (\<lambda>idx. [Num (k * unat w + unat idx), Endl]) result))
                       (enumerate 0 results)))"
proof -
  from chunk_loop_effect [OF assms, of W no r 0 p]
  obtain out p' results where
    run: "chunk_loop W no w t r 0 p = Some (out, p')"
    and cl: "calls p' = calls p @
              map (\<lambda>(i, res). Run (window (unat w) t i) res) (enumerate 0 results)"
    and co: "cout p' = cout p @
       (if no then [] else concat (map (\<lambda>(i, res). printed (i * unat w) res) (enumerate 0 results)))"
    and ne: "\<forall>i. i < length results \<longrightarrow> i * unat w < length t"
    and src: "\<forall>(i, res) \<in> set (enumerate 0 results). \<forall>result. res = Inr result \<longrightarrow>
                (\<exists>r0 r1. run W r0 (window (unat w) t i) = Inr (result, r1))"
    by auto
  have co': "cout p' = cout p @
       (if no then []
        else concat (map (\<lambda>(k, res). case res of
                              Inl e \<Rightarrow> []
                            | Inr result \<Rightarrow>
                                concat (map (\<lambda>idx. [Num (k * unat w + unat idx), Endl]) result))
                       (enumerate 0 results)))"
    using co unfolding printed_windows [OF ne assms(2)] .
  show ?thesis
    using run cl src co' by blast
qed

text \<open>
  The literal \<^verbatim>\<open>b\<close> in \<^verbatim>\<open>abcab\<close>, chunks of two: local indices 1 (window 0) and 0
  (window 2), printed as 1 and 4.
\<close>

theorem positions_are_offset_plus_index_witness:
  "(2 :: 32 word) \<noteq> 0 \<and> length [97, 98, 99, 97, 98 :: 32 word] + 2 ^ 32 \<le> 2 ^ 64 \<and>
   chunk_loop (toy_world (toy_cmdline ''b'' ''abcab.txt'')) False 2 [97, 98, 99, 97, 98] [98] 0
     start =
     Some (Inr (), \<lparr>cout = [Num 1, Endl, Num 4, Endl], cerr = [],
                     calls = [Run [97, 98] (Inr [1]), Run [99, 97] (Inr []),
                              Run [98] (Inr [0])]\<rparr>) \<and>
   (\<exists>out p' results.
      chunk_loop (toy_world (toy_cmdline ''b'' ''abcab.txt'')) False 2 [97, 98, 99, 97, 98] [98] 0
        start = Some (out, p') \<and>
      calls p' = calls start @
        map (\<lambda>(k, res). Run (window (unat (2 :: 32 word)) [97, 98, 99, 97, 98] k) res)
          (enumerate 0 results) \<and>
      cout p' = cout start @
        concat (map (\<lambda>(k, res). case res of
                        Inl e \<Rightarrow> []
                      | Inr result \<Rightarrow>
                          concat (map (\<lambda>idx. [Num (k * unat (2 :: 32 word) + unat idx), Endl])
                                    result))
                  (enumerate 0 results)))"
proof -
  from positions_are_offset_plus_index
    [of 2 "[97, 98, 99, 97, 98]" "toy_world (toy_cmdline ''b'' ''abcab.txt'')" False "[98]" start]
  obtain out p' results where
    "chunk_loop (toy_world (toy_cmdline ''b'' ''abcab.txt'')) False 2 [97, 98, 99, 97, 98] [98] 0
        start = Some (out, p')"
    "calls p' = calls start @
        map (\<lambda>(k, res). Run (window (unat (2 :: 32 word)) [97, 98, 99, 97, 98] k) res)
          (enumerate 0 results)"
    "cout p' = cout start @
        concat (map (\<lambda>(k, res). case res of
                        Inl e \<Rightarrow> []
                      | Inr result \<Rightarrow>
                          concat (map (\<lambda>idx. [Num (k * unat (2 :: 32 word) + unat idx), Endl])
                                    result))
                  (enumerate 0 results))"
    by auto
  then have "\<exists>out p' results.
      chunk_loop (toy_world (toy_cmdline ''b'' ''abcab.txt'')) False 2 [97, 98, 99, 97, 98] [98] 0
        start = Some (out, p') \<and>
      calls p' = calls start @
        map (\<lambda>(k, res). Run (window (unat (2 :: 32 word)) [97, 98, 99, 97, 98] k) res)
          (enumerate 0 results) \<and>
      cout p' = cout start @
        concat (map (\<lambda>(k, res). case res of
                        Inl e \<Rightarrow> []
                      | Inr result \<Rightarrow>
                          concat (map (\<lambda>idx. [Num (k * unat (2 :: 32 word) + unat idx), Endl])
                                    result))
                  (enumerate 0 results))"
    by blast
  moreover have "(2 :: 32 word) \<noteq> 0" "length [97, 98, 99, 97, 98 :: 32 word] + 2 ^ 32 \<le> 2 ^ 64"
    by simp_all
  ultimately show ?thesis
    using toy_loop_abcab [of "toy_cmdline ''b'' ''abcab.txt''"] by blast
qed

text \<open>
  C3 as stated fails: \<^verbatim>\<open>main\<close> constructs the engine (line 121) before it compiles the
  pattern (line 135). For the unbalanced pattern \<^verbatim>\<open>(a\<close> the engine has been constructed
  when the compiler rejects the pattern; and when the engine's constructor throws, the
  pattern is never compiled and the program reports the engine's exception instead.
\<close>

theorem engine_precedes_compilation_counterexample:
  "string_to_graph (toy_world (toy_cmdline ''(a'' ''abcab.txt'')) [40, 97] =
     Inl (user_error ''unbalanced group'') \<and>
   main (toy_world (toy_cmdline ''(a'' ''abcab.txt'')) [''(a'', ''abcab.txt''] =
     Some (Returned EXIT_FAILURE,
           \<lparr>cout = [], cerr = [Str ''unbalanced group'', Endl],
            calls = [Parse_Command_Line, Engine_Init, Compile [40, 97]]\<rparr>) \<and>
   main ((toy_world (toy_cmdline ''(a'' ''abcab.txt''))
            \<lparr>oclengine := Inl (std_exception ''no OpenCL device'')\<rparr>) [''(a'', ''abcab.txt''] =
     Some (Returned EXIT_FAILURE,
           \<lparr>cout = [], cerr = internal_error_banner ''no OpenCL device'',
            calls = [Parse_Command_Line, Engine_Init]\<rparr>)"
  by (simp add: main_defs toy_defs)

text \<open>
  C3, amended. For every pattern the compiler rejects with a \<^verbatim>\<open>user_error\<close>, once the
  locale check, the command line and the construction of the engine have succeeded, the
  program prints the error's message to \<^verbatim>\<open>std::cerr\<close> and returns \<^verbatim>\<open>EXIT_FAILURE\<close>; the
  engine has been constructed before the compilation, but no runner is constructed, no
  file is read and \<^verbatim>\<open>run\<close> is never called.
\<close>

theorem invalid_pattern_reported:
  assumes "utf8_locale W" and "command_line_parser W argv = Inr vm" and "\<not> opt_help vm"
    and "notify_error W vm = None"
    and "oclengine W = Inr eng"
    and "(if opt_normalize_regex vm then normalize_nfkc W (utf_to_utf32 W (regex_utf8 vm))
          else Inr (utf_to_utf32 W (regex_utf8 vm))) = Inr regex_utf32"
    and "string_to_graph W regex_utf32 = Inl (user_error what)"
  shows "main W argv =
           Some (Returned EXIT_FAILURE,
                 \<lparr>cout = [], cerr = [Str what, Endl],
                  calls = [Parse_Command_Line, Engine_Init, Compile regex_utf32]\<rparr>)"
proof -
  have "compile_and_search W vm p =
          Some (Inl (user_error what), log_call (Compile regex_utf32) (log_call Engine_Init p))" for p
    using assms(5,7) unfolding compile_and_search_def Let_def assms(6) by simp
  then show ?thesis
    by (simp add: main_def main_try_prologue [OF assms(1-4)] log_call_def write_cerr_def)
qed

theorem invalid_pattern_reported_witness:
  "utf8_locale (toy_world (toy_cmdline ''(a'' ''abcab.txt'')) \<and>
   command_line_parser (toy_world (toy_cmdline ''(a'' ''abcab.txt'')) [''(a'', ''abcab.txt'']
     = Inr (toy_cmdline ''(a'' ''abcab.txt'') \<and>
   \<not> opt_help (toy_cmdline ''(a'' ''abcab.txt'') \<and>
   notify_error (toy_world (toy_cmdline ''(a'' ''abcab.txt'')) (toy_cmdline ''(a'' ''abcab.txt'') = None \<and>
   oclengine (toy_world (toy_cmdline ''(a'' ''abcab.txt'')) = Inr () \<and>
   utf_to_utf32 (toy_world (toy_cmdline ''(a'' ''abcab.txt'')) (regex_utf8 (toy_cmdline ''(a'' ''abcab.txt''))
     = [40, 97] \<and>
   string_to_graph (toy_world (toy_cmdline ''(a'' ''abcab.txt'')) [40, 97]
     = Inl (user_error ''unbalanced group'') \<and>
   main (toy_world (toy_cmdline ''(a'' ''abcab.txt'')) [''(a'', ''abcab.txt''] =
     Some (Returned EXIT_FAILURE,
           \<lparr>cout = [], cerr = [Str ''unbalanced group'', Endl],
            calls = [Parse_Command_Line, Engine_Init, Compile [40, 97]]\<rparr>)"
  using invalid_pattern_reported
    [of "toy_world (toy_cmdline ''(a'' ''abcab.txt'')" "[''(a'', ''abcab.txt'']"
        "toy_cmdline ''(a'' ''abcab.txt''" "()" "[40, 97]" "''unbalanced group''"]
  by (simp add: toy_defs regex_utf8_def)

text \<open>
  C4. If the configured window size (\<^verbatim>\<open>max-chunk-size\<close>) is zero, the program reports
  the invalid configuration as a caller-facing error and does not go on to the input.
  \<^verbatim>\<open>main\<close> itself does not test the size: it hands it to the constructor of the runner
  (line 141), before it reads the file (line 144) and before the loop (line 162). With
  the constructor of the specification, which rejects the size zero with a caller-facing
  error of cause \<open>cause\<close>: once the engine is constructed and the pattern compiled, the
  program prints the cause to \<^verbatim>\<open>std::cerr\<close> (the handler of \<^verbatim>\<open>user_error\<close>, lines 176 to
  178) and returns \<^verbatim>\<open>EXIT_FAILURE\<close>; its last call is the constructor with the size 0:
  no file is read and \<^verbatim>\<open>run\<close> is never called.
\<close>

theorem zero_chunk_size_reported:
  assumes "utf8_locale W" and "command_line_parser W argv = Inr vm" and "\<not> opt_help vm"
    and "notify_error W vm = None"
    and "oclengine W = Inr eng"
    and "(if opt_normalize_regex vm then normalize_nfkc W (utf_to_utf32 W (regex_utf8 vm))
          else Inr (utf_to_utf32 W (regex_utf8 vm))) = Inr regex_utf32"
    and "string_to_graph W regex_utf32 = Inr g"
    and "(if opt_print_graph vm then print_graph W g else Inr []) = Inr dmp"
    and "max_chunk_size vm = 0"
    and "oclrunner W = spec_oclrunner cause W0"
  shows "main W argv =
           Some (Returned EXIT_FAILURE,
                 \<lparr>cout = dmp, cerr = [Str cause, Endl],
                  calls = [Parse_Command_Line, Engine_Init, Compile regex_utf32, Runner_Init 0]\<rparr>)"
proof -
  have rejected: "oclrunner W eng (max_chunk_size vm) g (opt_print_profile vm) = Inl (user_error cause)"
    unfolding assms(9) assms(10) by (simp add: spec_oclrunner_def)
  have "compile_and_search W vm p =
          Some (Inl (user_error cause),
                log_call (Runner_Init (max_chunk_size vm))
                  (write_cout dmp (log_call (Compile regex_utf32) (log_call Engine_Init p))))" for p
    using assms(5,7,8) rejected unfolding compile_and_search_def Let_def assms(6) by simp
  then show ?thesis
    by (simp add: main_def main_try_prologue [OF assms(1-4)] log_call_def write_cout_def
          write_cerr_def assms(9))
qed

text \<open>
  The toy world with the constructor of the specification, \<^verbatim>\<open>--max-chunk-size=0\<close> and
  the file \<^verbatim>\<open>abcab.txt\<close>, which exists and is not empty.
\<close>

theorem zero_chunk_size_reported_witness:
  "utf8_locale ((toy_world ((toy_cmdline ''ab'' ''abcab.txt'')\<lparr>opt_max_chunk_size := Some 0\<rparr>))
      \<lparr>oclrunner := spec_oclrunner ''the chunk size must not be zero''
         (toy_world ((toy_cmdline ''ab'' ''abcab.txt'')\<lparr>opt_max_chunk_size := Some 0\<rparr>))\<rparr>) \<and>
   max_chunk_size ((toy_cmdline ''ab'' ''abcab.txt'')\<lparr>opt_max_chunk_size := Some 0\<rparr>) = 0 \<and>
   string_to_graph ((toy_world ((toy_cmdline ''ab'' ''abcab.txt'')\<lparr>opt_max_chunk_size := Some 0\<rparr>))
      \<lparr>oclrunner := spec_oclrunner ''the chunk size must not be zero''
         (toy_world ((toy_cmdline ''ab'' ''abcab.txt'')\<lparr>opt_max_chunk_size := Some 0\<rparr>))\<rparr>) [97, 98] =
     Inr \<lparr>graph_n = 0, graph_o = 0, graph_data = [97, 98]\<rparr> \<and>
   oclrunner ((toy_world ((toy_cmdline ''ab'' ''abcab.txt'')\<lparr>opt_max_chunk_size := Some 0\<rparr>))
      \<lparr>oclrunner := spec_oclrunner ''the chunk size must not be zero''
         (toy_world ((toy_cmdline ''ab'' ''abcab.txt'')\<lparr>opt_max_chunk_size := Some 0\<rparr>))\<rparr>) ()
      0 \<lparr>graph_n = 0, graph_o = 0, graph_data = [97, 98]\<rparr> False =
     Inl (user_error ''the chunk size must not be zero'') \<and>
   files ((toy_world ((toy_cmdline ''ab'' ''abcab.txt'')\<lparr>opt_max_chunk_size := Some 0\<rparr>))
      \<lparr>oclrunner := spec_oclrunner ''the chunk size must not be zero''
         (toy_world ((toy_cmdline ''ab'' ''abcab.txt'')\<lparr>opt_max_chunk_size := Some 0\<rparr>))\<rparr>)
      ''abcab.txt'' = Some (Inr ''abcab'') \<and>
   main ((toy_world ((toy_cmdline ''ab'' ''abcab.txt'')\<lparr>opt_max_chunk_size := Some 0\<rparr>))
      \<lparr>oclrunner := spec_oclrunner ''the chunk size must not be zero''
         (toy_world ((toy_cmdline ''ab'' ''abcab.txt'')\<lparr>opt_max_chunk_size := Some 0\<rparr>))\<rparr>)
      [''--max-chunk-size=0'', ''ab'', ''abcab.txt''] =
     Some (Returned EXIT_FAILURE,
           \<lparr>cout = [], cerr = [Str ''the chunk size must not be zero'', Endl],
            calls = [Parse_Command_Line, Engine_Init, Compile [97, 98], Runner_Init 0]\<rparr>)"
proof -
  let ?vm = "(toy_cmdline ''ab'' ''abcab.txt'')\<lparr>opt_max_chunk_size := Some 0\<rparr>"
  let ?W = "(toy_world ?vm)\<lparr>oclrunner := spec_oclrunner ''the chunk size must not be zero'' (toy_world ?vm)\<rparr>"
  let ?argv = "[''--max-chunk-size=0'', ''ab'', ''abcab.txt'']"
  let ?g = "\<lparr>graph_n = 0, graph_o = 0, graph_data = [97, 98]\<rparr>"
  have hyps:
    "utf8_locale ?W" "command_line_parser ?W ?argv = Inr ?vm" "\<not> opt_help ?vm"
    "notify_error ?W ?vm = None" "oclengine ?W = Inr ()"
    "(if opt_normalize_regex ?vm then normalize_nfkc ?W (utf_to_utf32 ?W (regex_utf8 ?vm))
      else Inr (utf_to_utf32 ?W (regex_utf8 ?vm))) = Inr [97, 98]"
    "string_to_graph ?W [97, 98] = Inr ?g"
    "(if opt_print_graph ?vm then print_graph ?W ?g else Inr []) = Inr []"
    "max_chunk_size ?vm = 0"
    "oclrunner ?W = spec_oclrunner ''the chunk size must not be zero'' (toy_world ?vm)"
    by (simp_all add: toy_defs regex_utf8_def max_chunk_size_def)
  have more:
    "oclrunner ?W () 0 ?g False = Inl (user_error ''the chunk size must not be zero'')"
    "files ?W ''abcab.txt'' = Some (Inr ''abcab'')"
    by (simp_all add: toy_defs spec_oclrunner_def)
  show ?thesis
    using hyps(1) hyps(9) hyps(7) more zero_chunk_size_reported [OF hyps]
    by - (intro conjI; assumption)
qed

text \<open>
  C5. For every positive \<^verbatim>\<open>max_chunk_size\<close> \<open>w\<close> and every non-empty text of \<open>L\<close> code
  points the loop ends, whatever the runner does. \<open>results\<close> is what its \<^verbatim>\<open>run\<close> calls
  gave back, one entry for each call: they are the results of the successive calls on
  the \<open>\<lceil>L / w\<rceil>\<close> windows of the text, up to the first call that threw. So there is at
  least one call and there are at most \<open>\<lceil>L / w\<rceil>\<close>. The loop ends normally exactly when
  no call threw, and then it has made exactly \<open>\<lceil>L / w\<rceil>\<close> calls; otherwise it ends with
  the exception that \<^verbatim>\<open>run\<close> threw on the last window handed out. In particular, when
  \<^verbatim>\<open>run\<close> throws on no window of the text, the calls are exactly \<open>\<lceil>L / w\<rceil>\<close>. When
  \<open>w < L\<close> this number is above one, and the loop makes several calls as soon as the
  first call returns.
\<close>

theorem chunk_loop_terminates:
  assumes "w \<noteq> 0" and "t \<noteq> []" and "length t + 2 ^ 32 \<le> 2 ^ 64"
  shows "\<exists>out p' results.
     chunk_loop W no w t r 0 p = Some (out, p') \<and>
     calls p' = calls p @ map (\<lambda>(k, res). Run (window (unat w) t k) res) (enumerate 0 results) \<and>
     length (run_chunks (calls p')) = length (run_chunks (calls p)) + length results \<and>
     results = run_results W r
        (map (window (unat w) t) [0..<nat \<lceil>real (length t) / real (unat w)\<rceil>]) \<and>
     0 < length results \<and> length results \<le> nat \<lceil>real (length t) / real (unat w)\<rceil> \<and>
     (out = Inr () \<longleftrightarrow> (\<forall>res \<in> set results. \<exists>result. res = Inr result)) \<and>
     (out = Inr () \<longrightarrow> length results = nat \<lceil>real (length t) / real (unat w)\<rceil>) \<and>
     (\<forall>e. out = Inl e \<longrightarrow>
        last results = Inl e \<and>
        (\<exists>r0. run W r0 (window (unat w) t (length results - 1)) = Inl e)) \<and>
     ((\<forall>r0 k e. run W r0 (window (unat w) t k) \<noteq> Inl e) \<longrightarrow>
        out = Inr () \<and> length results = nat \<lceil>real (length t) / real (unat w)\<rceil>) \<and>
     (unat w < length t \<longrightarrow>
        1 < nat \<lceil>real (length t) / real (unat w)\<rceil> \<and>
        ((\<exists>result r1. run W r (window (unat w) t 0) = Inr (result, r1)) \<longrightarrow> 1 < length results))"
proof -
  have wpos: "0 < unat w" using assms(1) by (simp add: unat_gt_0)
  from chunk_loop_effect [OF assms(1,3), of W no r 0 p]
  obtain out p' results where
    run: "chunk_loop W no w t r 0 p = Some (out, p')"
    and cl: "calls p' = calls p @
              map (\<lambda>(i, res). Run (window (unat w) t i) res) (enumerate 0 results)"
    and ne: "\<forall>i. i < length results \<longrightarrow> i * unat w < length t"
    and fin: "out = Inr () \<longrightarrow> length t \<le> length results * unat w"
    and err: "\<forall>e. out = Inl e \<longrightarrow> results \<noteq> [] \<and> last results = Inl e"
    and seq: "results = run_results W r (map (window (unat w) t) [0..<length results])"
    and ok: "out = Inr () \<longrightarrow> (\<forall>res \<in> set results. \<exists>result. res = Inr result)"
    by auto
  let ?m = "length results"
  let ?N = "nat \<lceil>real (length t) / real (unat w)\<rceil>"
  let ?cs = "map (window (unat w) t) [0..<?m]"
  have 1: "length (run_chunks (calls p')) = length (run_chunks (calls p)) + ?m"
    using run_chunks_enumerate [of "window (unat w) t" 0 results]
    by (simp add: cl run_chunks_append)
  have 2: "0 < ?m"
  proof (cases out)
    case (Inl e)
    then show ?thesis using err by simp
  next
    case (Inr u)
    then have "length t \<le> ?m * unat w" using fin by simp
    then show ?thesis using assms(2) by (cases results) simp_all
  qed
  have last_window: "(?m - 1) * unat w < length t"
    using ne 2 by simp
  have 3: "?m \<le> ?N"
    using wpos 2 last_window by (rule calls_le_ceiling)
  have 4: "out = Inr () \<longrightarrow> ?m = ?N"
    using calls_eq_ceiling [OF wpos 2 last_window] fin by simp
  have 6: "\<forall>e. out = Inl e \<longrightarrow>
        last results = Inl e \<and> (\<exists>r0. run W r0 (window (unat w) t (?m - 1)) = Inl e)"
  proof (intro allI impI)
    fix e assume "out = Inl e"
    then have l: "last results = Inl e" using err by simp
    have "run_results W r ?cs \<noteq> []" "last (run_results W r ?cs) = Inl e"
      using 2 l seq by simp_all
    from run_results_thrown [OF this]
    obtain r0 where "run W r0 (?cs ! (length (run_results W r ?cs) - 1)) = Inl e" ..
    then have "run W r0 (?cs ! (?m - 1)) = Inl e"
      using seq by simp
    moreover have "?cs ! (?m - 1) = window (unat w) t (?m - 1)"
      using 2 by simp
    ultimately show "last results = Inl e \<and> (\<exists>r0. run W r0 (window (unat w) t (?m - 1)) = Inl e)"
      using l by auto
  qed
  have 7: "out = Inr () \<longleftrightarrow> (\<forall>res \<in> set results. \<exists>result. res = Inr result)"
  proof
    assume "out = Inr ()"
    then show "\<forall>res \<in> set results. \<exists>result. res = Inr result" using ok by simp
  next
    assume all: "\<forall>res \<in> set results. \<exists>result. res = Inr result"
    show "out = Inr ()"
    proof (cases out)
      case (Inl e)
      then have "last results = Inl e" using err by simp
      moreover have "results \<noteq> []" using 2 by simp
      ultimately have "Inl e \<in> set results" using last_in_set [of results] by simp
      then show ?thesis using all by auto
    next
      case (Inr u)
      then show ?thesis by simp
    qed
  qed
  have 8: "(\<forall>r0 k e. run W r0 (window (unat w) t k) \<noteq> Inl e) \<longrightarrow> out = Inr () \<and> ?m = ?N"
  proof
    assume never: "\<forall>r0 k e. run W r0 (window (unat w) t k) \<noteq> Inl e"
    have "out = Inr ()"
    proof (cases out)
      case (Inl e)
      then show ?thesis using 6 never by blast
    next
      case (Inr u)
      then show ?thesis by simp
    qed
    then show "out = Inr () \<and> ?m = ?N" using 4 by simp
  qed
  have 9: "results = run_results W r (map (window (unat w) t) [0..<?N])"
  proof (cases out)
    case (Inr u)
    then have "?m = ?N" using 4 by simp
    then show ?thesis using seq by simp
  next
    case (Inl e)
    then have l: "last results = Inl e" using err by simp
    have stop: "run_results W r ?cs \<noteq> []" "last (run_results W r ?cs) = Inl e"
      using 2 l seq by simp_all
    have "[0..<?m + (?N - ?m)] = [0..<?m] @ [?m..<?m + (?N - ?m)]"
      by (rule upt_add_eq_append) simp
    then have "[0..<?N] = [0..<?m] @ [?m..<?N]"
      using 3 by simp
    then have "map (window (unat w) t) [0..<?N] = ?cs @ map (window (unat w) t) [?m..<?N]"
      by simp
    then have "run_results W r (map (window (unat w) t) [0..<?N]) = run_results W r ?cs"
      using run_results_stops [OF stop] by simp
    then show ?thesis using seq by simp
  qed
  have 10: "unat w < length t \<longrightarrow>
        1 < ?N \<and> ((\<exists>result r1. run W r (window (unat w) t 0) = Inr (result, r1)) \<longrightarrow> 1 < ?m)"
  proof (intro impI conjI)
    assume "unat w < length t"
    then show "1 < ?N" by (rule several_calls [OF wpos])
  next
    assume big: "unat w < length t"
      and "\<exists>result r1. run W r (window (unat w) t 0) = Inr (result, r1)"
    then obtain result r1 where first: "run W r (window (unat w) t 0) = Inr (result, r1)"
      by blast
    have N: "Suc 0 < ?N" using several_calls [OF wpos big] by simp
    then have "[0..<?N] = 0 # [Suc 0..<?N]"
      by (intro upt_conv_Cons) simp
    also have "[Suc 0..<?N] = Suc 0 # [Suc (Suc 0)..<?N]"
      using N by (rule upt_conv_Cons)
    finally have "map (window (unat w) t) [0..<?N] =
        window (unat w) t 0 # window (unat w) t (Suc 0) #
        map (window (unat w) t) [Suc (Suc 0)..<?N]"
      by (simp only: list.map)
    then have "results = run_results W r (window (unat w) t 0 # window (unat w) t (Suc 0) #
        map (window (unat w) t) [Suc (Suc 0)..<?N])"
      using 9 by (simp only:)
    then have res: "results = Inr result #
        run_results W r1 (window (unat w) t (Suc 0) # map (window (unat w) t) [Suc (Suc 0)..<?N])"
      using first by (simp only: run_results.simps sum.case prod.case)
    have "run_results W r1 (window (unat w) t (Suc 0) #
            map (window (unat w) t) [Suc (Suc 0)..<?N]) \<noteq> []"
      by (rule run_results_nonempty) simp
    then obtain x xs where "run_results W r1 (window (unat w) t (Suc 0) #
            map (window (unat w) t) [Suc (Suc 0)..<?N]) = x # xs"
      by (auto simp: neq_Nil_conv)
    then have "results = Inr result # x # xs"
      using res by (simp only:)
    then show "1 < ?m"
      by simp
  qed
  show ?thesis
    using run cl 1 2 3 4 6 7 8 9 10 by blast
qed

text \<open>
  The text \<^verbatim>\<open>abcab\<close> in chunks of two, searched for \<^verbatim>\<open>b\<close>: three calls, on \<^verbatim>\<open>ab\<close>,
  \<^verbatim>\<open>ca\<close> and \<^verbatim>\<open>b\<close>, and \<open>\<lceil>5 / 2\<rceil> = 3\<close>.
\<close>

theorem chunk_loop_terminates_witness:
  "(2 :: 32 word) \<noteq> 0 \<and> [97, 98, 99, 97, 98 :: 32 word] \<noteq> [] \<and>
   length [97, 98, 99, 97, 98 :: 32 word] + 2 ^ 32 \<le> 2 ^ 64 \<and>
   chunk_loop (toy_world (toy_cmdline ''b'' ''abcab.txt'')) False 2 [97, 98, 99, 97, 98] [98] 0
     start =
     Some (Inr (), \<lparr>cout = [Num 1, Endl, Num 4, Endl], cerr = [],
                     calls = [Run [97, 98] (Inr [1]), Run [99, 97] (Inr []),
                              Run [98] (Inr [0])]\<rparr>) \<and>
   nat \<lceil>real (length [97, 98, 99, 97, 98 :: 32 word]) / real (unat (2 :: 32 word))\<rceil> = 3 \<and>
   length (run_chunks [Run [97, 98] (Inr [1]), Run [99, 97] (Inr []), Run [98] (Inr [0])]) =
     nat \<lceil>real (length [97, 98, 99, 97, 98 :: 32 word]) / real (unat (2 :: 32 word))\<rceil> \<and>
   run_results (toy_world (toy_cmdline ''b'' ''abcab.txt'')) [98]
       (map (window (unat (2 :: 32 word)) [97, 98, 99, 97, 98])
          [0..<nat \<lceil>real (length [97, 98, 99, 97, 98 :: 32 word]) / real (unat (2 :: 32 word))\<rceil>]) =
     [Inr [1], Inr [], Inr [0]]"
proof -
  let ?t = "[97, 98, 99, 97, 98 :: 32 word]"
  let ?W = "toy_world (toy_cmdline ''b'' ''abcab.txt'')"
  let ?N = "nat \<lceil>real (length ?t) / real (unat (2 :: 32 word))\<rceil>"
  let ?evs = "[Run [97, 98] (Inr [1]), Run [99, 97] (Inr []), Run [98] (Inr [0])]"
  let ?p = "\<lparr>cout = [Num 1, Endl, Num 4, Endl], cerr = [], calls = ?evs\<rparr>"
  have hyps: "(2 :: 32 word) \<noteq> 0" "?t \<noteq> []" "length ?t + 2 ^ 32 \<le> 2 ^ 64"
    by simp_all
  have loop: "chunk_loop ?W False 2 ?t [98] 0 start = Some (Inr (), ?p)"
    by (rule toy_loop_abcab)
  from chunk_loop_terminates [OF hyps, of ?W False "[98]" start]
  obtain out p' results where
    run: "chunk_loop ?W False 2 ?t [98] 0 start = Some (out, p')"
    and cl: "calls p' = calls start @
               map (\<lambda>(k, res). Run (window (unat (2 :: 32 word)) ?t k) res) (enumerate 0 results)"
    and count: "length (run_chunks (calls p')) = length (run_chunks (calls start)) + length results"
    and seq: "results = run_results ?W [98] (map (window (unat (2 :: 32 word)) ?t) [0..<?N])"
    and exact: "out = Inr () \<longrightarrow> length results = ?N"
    by blast
  have out: "out = Inr ()" and p': "p' = ?p"
    using run unfolding loop by simp_all
  have calls: "length (run_chunks ?evs) = ?N"
    using count exact out unfolding p' by (simp add: start_def)
  have N: "?N = 3"
    by simp
  have "length results = 3"
    using exact out N by simp
  then obtain a b c where abc: "results = [a, b, c]"
    by (auto simp: numeral_3_eq_3 length_Suc_conv)
  have "?evs = map (\<lambda>(k, res). Run (window (unat (2 :: 32 word)) ?t k) res) (enumerate 0 results)"
    using cl unfolding p' by (simp add: start_def)
  then have "results = [Inr [1], Inr [], Inr [0]]"
    unfolding abc by simp
  then have results: "run_results ?W [98] (map (window (unat (2 :: 32 word)) ?t) [0..<?N]) =
      [Inr [1], Inr [], Inr [0]]"
    using seq by simp
  show ?thesis
    using hyps loop N calls results by - (intro conjI; assumption)
qed

text \<open>
  C6. For every automaton \<open>(n, o, storage)\<close> whose records lie inside the storage,
  \<^verbatim>\<open>print_graph\<close> prints exactly the dump written from the accessors of the format:
  for every state \<open>i < n\<close> its index, its count \<open>m = storage[base]\<close> with
  \<open>base = storage[i]\<close>, the mark of the start, reject or accept state, and for every
  slot \<open>k < m\<close> the symbol at \<open>storage[base + 1 + k*(1+o)]\<close> and the \<open>o\<close> targets in the
  \<open>o\<close> words after it. No read leaves the storage.
\<close>

theorem print_graph_follows_format:
  assumes "records_in_storage g"
  shows "print_graph W g = Inr (dump W g)"
  using print_nodes_dump [OF assms, of W 0] by (simp add: print_graph_def dump_def)

text \<open>The dump of the automaton of the pattern \<^verbatim>\<open>a\<close>.\<close>

theorem print_graph_follows_format_witness:
  "records_in_storage graph_a \<and>
   spec_base graph_a 0 = 3 \<and> spec_m graph_a 0 = 1 \<and> spec_symbol graph_a 0 0 = 97 \<and>
   spec_target graph_a 0 0 0 = 2 \<and> spec_m graph_a 1 = 0 \<and> spec_m graph_a 2 = 0 \<and>
   print_graph (toy_world (toy_cmdline ''a'' ''abcab.txt'')) graph_a =
     Inr [Str ''Graph (n='', Num 3, Str '', o='', Num 1, Str '', size='', Num 32, Str ''byte):'', Endl,
          Str ''  node'', Num 0, Str '' (m='', Num 1, Str '', BEGIN'', Str ''):'', Endl,
          Str ''    '', Num 97, Str '' => ['', Num 2, Str '']'', Endl,
          Str ''  node'', Num 1, Str '' (m='', Num 0, Str '', FAIL'', Str ''):'', Endl,
          Str ''  node'', Num 2, Str '' (m='', Num 0, Str '', OK'', Str ''):'', Endl]"
proof -
  have wf: "records_in_storage graph_a"
    by (simp add: records_in_storage_def graph_a_def spec_base_def spec_m_def upt_conv_Cons)
  have "dump (toy_world (toy_cmdline ''a'' ''abcab.txt'')) graph_a =
     [Str ''Graph (n='', Num 3, Str '', o='', Num 1, Str '', size='', Num 32, Str ''byte):'', Endl,
          Str ''  node'', Num 0, Str '' (m='', Num 1, Str '', BEGIN'', Str ''):'', Endl,
          Str ''    '', Num 97, Str '' => ['', Num 2, Str '']'', Endl,
          Str ''  node'', Num 1, Str '' (m='', Num 0, Str '', FAIL'', Str ''):'', Endl,
          Str ''  node'', Num 2, Str '' (m='', Num 0, Str '', OK'', Str ''):'', Endl]"
    by (simp add: dump_def dump_state_def dump_slot_def dump_targets_def state_mark_def
          spec_base_def spec_m_def spec_symbol_def spec_target_def graph_a_def toy_world_def
          upt_conv_Cons)
  moreover have "spec_base graph_a 0 = 3" "spec_m graph_a 0 = 1" "spec_symbol graph_a 0 0 = 97"
    "spec_target graph_a 0 0 0 = 2" "spec_m graph_a 1 = 0" "spec_m graph_a 2 = 0"
    by (simp_all add: spec_base_def spec_m_def spec_symbol_def spec_target_def graph_a_def)
  ultimately show ?thesis
    using wf print_graph_follows_format [OF wf, of "toy_world (toy_cmdline ''a'' ''abcab.txt'')"]
    by simp
qed

text \<open>
  C7. If every \<^verbatim>\<open>run\<close> call returns its local offsets in ascending order (the result
  is an ordered set of offsets: strictly ascending), each below the length of its
  window, then the positions the loop prints, over all windows of one text, are strictly
  ascending.
\<close>

theorem printed_positions_ascending:
  assumes "w \<noteq> 0" and "length t + 2 ^ 32 \<le> 2 ^ 64"
    and asc: "\<forall>r0 c result r1. run W r0 c = Inr (result, r1) \<longrightarrow>
           sorted_wrt (<) (map unat result) \<and> (\<forall>idx \<in> set result. unat idx < length c)"
  shows "\<exists>out p' items.
     chunk_loop W no w t r 0 p = Some (out, p') \<and>
     cout p' = cout p @ items \<and>
     sorted_wrt (<) (numbers items)"
proof -
  from chunk_loop_effect [OF assms(1,2), of W no r 0 p]
  obtain out p' results where
    run: "chunk_loop W no w t r 0 p = Some (out, p')"
    and co: "cout p' = cout p @
       (if no then [] else concat (map (\<lambda>(i, res). printed (i * unat w) res) (enumerate 0 results)))"
    and ne: "\<forall>i. i < length results \<longrightarrow> i * unat w < length t"
    and src: "\<forall>(i, res) \<in> set (enumerate 0 results). \<forall>result. res = Inr result \<longrightarrow>
                (\<exists>r0 r1. run W r0 (window (unat w) t i) = Inr (result, r1))"
    by auto
  let ?f = "\<lambda>i res. numbers (printed (i * unat w) res)"
  have block: "\<forall>(i, res) \<in> set (enumerate 0 results).
      sorted_wrt (<) (?f i res) \<and> (\<forall>x \<in> set (?f i res). i * unat w \<le> x \<and> x < Suc i * unat w)"
  proof (clarify)
    fix i res assume ires: "(i, res) \<in> set (enumerate 0 results)"
    then have "i < length results" by (simp add: in_set_enumerate_eq)
    then have inside: "i * unat w < length t" using ne by simp
    show "sorted_wrt (<) (?f i res) \<and> (\<forall>x \<in> set (?f i res). i * unat w \<le> x \<and> x < Suc i * unat w)"
    proof (cases res)
      case (Inl e)
      then show ?thesis by (simp add: printed_def)
    next
      case (Inr result)
      then obtain r0 r1 where "run W r0 (window (unat w) t i) = Inr (result, r1)"
        using src ires by blast
      with asc have s: "sorted_wrt (<) (map unat result)"
        and b: "\<forall>idx \<in> set result. unat idx < length (window (unat w) t i)"
        by blast+
      have len: "length (window (unat w) t i) \<le> unat w"
        by (simp add: window_def)
      have nums: "?f i res = map (\<lambda>idx. i * unat w + unat idx) result"
        by (simp add: Inr printed_def print_result_no_wrap [OF inside assms(2)] numbers_positions)
      have "sorted_wrt (<) (map (\<lambda>idx. i * unat w + unat idx) result)"
        using s by (simp add: sorted_wrt_map)
      moreover have "\<forall>x \<in> set (map (\<lambda>idx. i * unat w + unat idx) result).
                       i * unat w \<le> x \<and> x < Suc i * unat w"
        using b len by fastforce
      ultimately show ?thesis by (simp only: nums)
    qed
  qed
  let ?items = "if no then [] else concat (map (\<lambda>(i, res). printed (i * unat w) res) (enumerate 0 results))"
  have "numbers (concat (map (\<lambda>(i, res). printed (i * unat w) res) (enumerate 0 results)))
          = concat (map (\<lambda>(i, res). ?f i res) (enumerate 0 results))"
    by (simp add: numbers_concat comp_def case_prod_unfold)
  then have "sorted_wrt (<) (numbers ?items)"
    using blocks_ascending [OF block] by simp
  then show ?thesis
    using run co by blast
qed

theorem printed_positions_ascending_witness:
  "(2 :: 32 word) \<noteq> 0 \<and> length [97, 98, 99, 97, 98 :: 32 word] + 2 ^ 32 \<le> 2 ^ 64 \<and>
   chunk_loop (toy_world (toy_cmdline ''b'' ''abcab.txt'')) False 2 [97, 98, 99, 97, 98] [98] 0
     start =
     Some (Inr (), \<lparr>cout = [Num 1, Endl, Num 4, Endl], cerr = [],
                     calls = [Run [97, 98] (Inr [1]), Run [99, 97] (Inr []),
                              Run [98] (Inr [0])]\<rparr>) \<and>
   (\<exists>items. [Num 1, Endl, Num 4, Endl] = cout start @ items \<and> sorted_wrt (<) (numbers items))"
proof -
  have "\<forall>r0 c result r1.
          run (toy_world (toy_cmdline ''b'' ''abcab.txt'')) r0 c = Inr (result, r1) \<longrightarrow>
          sorted_wrt (<) (map unat result) \<and> (\<forall>idx \<in> set result. unat idx < length c)"
    using toy_run_ascending by (simp add: toy_world_def)
  from printed_positions_ascending
    [of 2 "[97, 98, 99, 97, 98]" "toy_world (toy_cmdline ''b'' ''abcab.txt'')" False "[98]" start,
     OF _ _ this]
  show ?thesis
    by (simp add: toy_loop_abcab)
qed

text \<open>
  C8 as stated fails: the test of line 145 is on the bytes of the file, before they are
  decoded. A file that is not empty but decodes to no code point (here the single
  invalid byte \<^verbatim>\<open>0xFF\<close>, which the decoder skips) passes the test; the loop is not
  entered, and the program returns \<^verbatim>\<open>EXIT_SUCCESS\<close> without any message.
\<close>

theorem undecodable_file_counterexample:
  "files (toy_world (toy_cmdline ''a'' ''invalid.txt'')) ''invalid.txt'' = Some (Inr [CHR 0xFF]) \<and>
   utf_to_utf32 (toy_world (toy_cmdline ''a'' ''invalid.txt'')) [CHR 0xFF] = [] \<and>
   main (toy_world (toy_cmdline ''a'' ''invalid.txt'')) [''a'', ''invalid.txt''] =
     Some (Returned EXIT_SUCCESS,
           \<lparr>cout = [], cerr = [],
            calls = [Parse_Command_Line, Engine_Init, Compile [97], Runner_Init 16777216,
                     Read_File ''invalid.txt'']\<rparr>)"
  by (simp add: main_defs toy_defs chunk_loop.simps)

text \<open>
  C8, amended. Once the runner is constructed: for every input file whose content is
  empty (no byte), the program fails with the caller-facing error
  \<^verbatim>\<open>Empty files cannot be processed!\<close> and returns \<^verbatim>\<open>EXIT_FAILURE\<close>; for a file that is
  not empty and whose decoded (and, if asked, normalized) content is empty, it returns
  \<^verbatim>\<open>EXIT_SUCCESS\<close> and prints no message. In both cases \<^verbatim>\<open>run\<close> is never called: the
  last call is \<^verbatim>\<open>readfile\<close>.
\<close>

theorem empty_input_makes_no_run_call:
  assumes "utf8_locale W" and "command_line_parser W argv = Inr vm" and "\<not> opt_help vm"
    and "notify_error W vm = None"
    and "oclengine W = Inr eng"
    and "(if opt_normalize_regex vm then normalize_nfkc W (utf_to_utf32 W (regex_utf8 vm))
          else Inr (utf_to_utf32 W (regex_utf8 vm))) = Inr regex_utf32"
    and "string_to_graph W regex_utf32 = Inr g"
    and "(if opt_print_graph vm then print_graph W g else Inr []) = Inr dmp"
    and "oclrunner W eng (max_chunk_size vm) g (opt_print_profile vm) = Inr runner"
    and "files W (file_name vm) = Some (Inr content)"
    and "content = [] \<or>
         (if opt_normalize_file vm then normalize_nfkc W (utf_to_utf32 W content)
          else Inr (utf_to_utf32 W content)) = Inr []"
  shows "\<exists>st p.
     main W argv = Some (st, p) \<and>
     calls p = [Parse_Command_Line, Engine_Init, Compile regex_utf32,
                Runner_Init (max_chunk_size vm), Read_File (file_name vm)] \<and>
     cout p = dmp \<and>
     (content = [] \<longrightarrow>
        st = Returned EXIT_FAILURE \<and> cerr p = [Str ''Empty files cannot be processed!'', Endl]) \<and>
     (content \<noteq> [] \<longrightarrow> st = Returned EXIT_SUCCESS \<and> cerr p = [])"
proof -
  let ?init = "\<lparr>cout = [], cerr = [], calls = []\<rparr>"
  let ?entry = "log_call (Runner_Init (max_chunk_size vm))
              (write_cout dmp (log_call (Compile regex_utf32)
                 (log_call Engine_Init (log_call Parse_Command_Line ?init))))"
  have reach: "main_try W argv ?init = load_and_search W vm runner ?entry"
    by (subst main_try_prologue [OF assms(1-4)], subst compile_and_search_runner [OF assms(5-9)])
       (rule refl)
  show ?thesis
  proof (cases "content = []")
    case True
    then have "load_and_search W vm runner ?entry =
        Some (Inl (user_error ''Empty files cannot be processed!''),
              log_call (Read_File (file_name vm)) ?entry)"
      using assms(10) by (simp add: load_and_search_def readfile_def)
    then show ?thesis
      using True by (simp add: main_def reach log_call_def write_cout_def write_cerr_def)
  next
    case False
    then have dec: "(if opt_normalize_file vm then normalize_nfkc W (utf_to_utf32 W content)
          else Inr (utf_to_utf32 W content)) = Inr []"
      using assms(11) by simp
    have "load_and_search W vm runner ?entry =
        Some (Inr EXIT_SUCCESS, log_call (Read_File (file_name vm)) ?entry)"
      using assms(10) False unfolding load_and_search_def readfile_def Let_def
      by (simp add: dec chunk_loop_done)
    then show ?thesis
      using False by (simp add: main_def reach log_call_def write_cout_def)
  qed
qed

theorem empty_input_makes_no_run_call_witness:
  "utf8_locale (toy_world (toy_cmdline ''a'' ''empty.txt'')) \<and>
   command_line_parser (toy_world (toy_cmdline ''a'' ''empty.txt'')) [''a'', ''empty.txt'']
     = Inr (toy_cmdline ''a'' ''empty.txt'') \<and>
   \<not> opt_help (toy_cmdline ''a'' ''empty.txt'') \<and>
   notify_error (toy_world (toy_cmdline ''a'' ''empty.txt'')) (toy_cmdline ''a'' ''empty.txt'') = None \<and>
   oclengine (toy_world (toy_cmdline ''a'' ''empty.txt'')) = Inr () \<and>
   utf_to_utf32 (toy_world (toy_cmdline ''a'' ''empty.txt'')) (regex_utf8 (toy_cmdline ''a'' ''empty.txt''))
     = [97] \<and>
   string_to_graph (toy_world (toy_cmdline ''a'' ''empty.txt'')) [97]
     = Inr \<lparr>graph_n = 0, graph_o = 0, graph_data = [97]\<rparr> \<and>
   oclrunner (toy_world (toy_cmdline ''a'' ''empty.txt'')) () (max_chunk_size (toy_cmdline ''a'' ''empty.txt''))
       \<lparr>graph_n = 0, graph_o = 0, graph_data = [97]\<rparr> False = Inr [97] \<and>
   files (toy_world (toy_cmdline ''a'' ''empty.txt'')) (file_name (toy_cmdline ''a'' ''empty.txt''))
     = Some (Inr []) \<and>
   main (toy_world (toy_cmdline ''a'' ''empty.txt'')) [''a'', ''empty.txt''] =
     Some (Returned EXIT_FAILURE,
           \<lparr>cout = [], cerr = [Str ''Empty files cannot be processed!'', Endl],
            calls = [Parse_Command_Line, Engine_Init, Compile [97], Runner_Init 16777216,
                     Read_File ''empty.txt'']\<rparr>)"
proof -
  let ?W = "toy_world (toy_cmdline ''a'' ''empty.txt'')"
  let ?vm = "toy_cmdline ''a'' ''empty.txt''"
  have hyps:
    "utf8_locale ?W" "command_line_parser ?W [''a'', ''empty.txt''] = Inr ?vm" "\<not> opt_help ?vm"
    "notify_error ?W ?vm = None" "oclengine ?W = Inr ()"
    "(if opt_normalize_regex ?vm then normalize_nfkc ?W (utf_to_utf32 ?W (regex_utf8 ?vm))
      else Inr (utf_to_utf32 ?W (regex_utf8 ?vm))) = Inr [97]"
    "string_to_graph ?W [97] = Inr \<lparr>graph_n = 0, graph_o = 0, graph_data = [97]\<rparr>"
    "(if opt_print_graph ?vm then print_graph ?W \<lparr>graph_n = 0, graph_o = 0, graph_data = [97]\<rparr>
      else Inr []) = Inr []"
    "oclrunner ?W () (max_chunk_size ?vm) \<lparr>graph_n = 0, graph_o = 0, graph_data = [97]\<rparr>
       (opt_print_profile ?vm) = Inr [97]"
    "files ?W (file_name ?vm) = Some (Inr [])"
    by (simp_all add: toy_defs regex_utf8_def file_name_def)
  from empty_input_makes_no_run_call [OF hyps]
  obtain st p where
    "main ?W [''a'', ''empty.txt''] = Some (st, p)"
    "calls p = [Parse_Command_Line, Engine_Init, Compile [97], Runner_Init (max_chunk_size ?vm),
                Read_File (file_name ?vm)]"
    "cout p = []" "st = Returned EXIT_FAILURE"
    "cerr p = [Str ''Empty files cannot be processed!'', Endl]"
    by auto
  then have "main ?W [''a'', ''empty.txt''] =
     Some (Returned EXIT_FAILURE,
           \<lparr>cout = [], cerr = [Str ''Empty files cannot be processed!'', Endl],
            calls = [Parse_Command_Line, Engine_Init, Compile [97], Runner_Init 16777216,
                     Read_File ''empty.txt'']\<rparr>)"
    by (cases p) (simp add: max_chunk_size_def file_name_def toy_cmdline_def)
  then show ?thesis
    using hyps by (simp add: toy_defs regex_utf8_def file_name_def max_chunk_size_def)
qed



text \<open>
  C10. On a system whose locale is not UTF-8 the program fails with the caller-facing
  error \<^verbatim>\<open>sorry, this program only works on UTF8 systems\<close>: the message goes to
  \<^verbatim>\<open>std::cerr\<close>, \<^verbatim>\<open>main\<close> returns \<^verbatim>\<open>EXIT_FAILURE\<close>, and no collaborator was called
  before: the command line was not parsed, no engine constructed, no pattern compiled.
\<close>

theorem non_utf8_locale_rejected:
  assumes "\<not> utf8_locale W"
  shows "main W argv =
           Some (Returned EXIT_FAILURE,
                 \<lparr>cout = [],
                  cerr = [Str ''sorry, this program only works on UTF8 systems'', Endl],
                  calls = []\<rparr>)"
  using assms by (simp add: main_def main_try_def write_cerr_def)

theorem non_utf8_locale_rejected_witness:
  "\<not> utf8_locale ((toy_world (toy_cmdline ''a'' ''abcab.txt''))\<lparr>utf8_locale := False\<rparr>) \<and>
   main ((toy_world (toy_cmdline ''a'' ''abcab.txt''))\<lparr>utf8_locale := False\<rparr>) [''a'', ''abcab.txt''] =
     Some (Returned EXIT_FAILURE,
           \<lparr>cout = [],
            cerr = [Str ''sorry, this program only works on UTF8 systems'', Endl],
            calls = []\<rparr>)"
  using non_utf8_locale_rejected
    [of "(toy_world (toy_cmdline ''a'' ''abcab.txt''))\<lparr>utf8_locale := False\<rparr>" "[''a'', ''abcab.txt'']"]
  by simp

end
